theory Spec2Isabelle
  imports Main "HOL-Library.Word"
begin

unbundle bit_operations_syntax

section \<open>Python values used by \<^verbatim>\<open>holidays/countries/vietnam.py\<close>\<close>

text \<open>
  Python integers are unbounded, so they are \<open>int\<close>.  The exceptions that the code
  under study can raise are values of \<open>py_error\<close>; a fallible expression has the type
  \<open>py_error + 'a\<close>, with \<open>Inl\<close> for the exception.
\<close>

datatype py_error = IndexError | ValueError | OverflowError

text \<open>
  \<^verbatim>\<open>xs[i]\<close> on a Python list: a negative index counts from the end, and an index
  outside \<open>-len(xs) .. len(xs) - 1\<close> raises IndexError.
\<close>

definition getitem :: "'a list \<Rightarrow> int \<Rightarrow> py_error + 'a" where
  "getitem xs i =
     (if 0 \<le> i \<and> i < int (length xs) then Inr (xs ! nat i)
      else if i < 0 \<and> - int (length xs) \<le> i then Inr (xs ! nat (int (length xs) + i))
      else Inl IndexError)"

text \<open>\<^verbatim>\<open>range(a, b)\<close> with step 1: the integers \<open>a, a + 1, ..., b - 1\<close>.\<close>

definition py_range :: "int \<Rightarrow> int \<Rightarrow> int list" where
  "py_range a b = [a..b - 1]"

text \<open>
  \<^verbatim>\<open>x >> n\<close> on Python integers: a negative shift count raises ValueError, otherwise
  the result is \<open>x div 2 ^ n\<close> rounded towards minus infinity, which is \<open>drop_bit\<close>
  on \<open>int\<close>.
\<close>

definition py_rshift :: "int \<Rightarrow> int \<Rightarrow> py_error + int" where
  "py_rshift x n = (if n < 0 then Inl ValueError else Inr (drop_bit (nat n) x))"

section \<open>The lunisolar table and its lookups\<close>

text \<open>The class attribute \<^verbatim>\<open>Vietnam.g_lunar_month_days\<close>, one entry per lunar year.\<close>

definition g_lunar_month_days :: "int list" where
  "g_lunar_month_days = [
    0xF0EA4, 0xF1D4A, 0x52C94, 0xF0C96, 0xF1536,
    0x42AAC, 0xF0AD4, 0xF16B2, 0x22EA4, 0xF0EA4,
    0x6364A, 0xF164A, 0xF1496, 0x52956, 0xF055A,
    0xF0AD6, 0x216D2, 0xF1B52, 0x73B24, 0xF1D24,
    0xF1A4A, 0x5349A, 0xF14AC, 0xF056C, 0x42B6A,
    0xF0DA8, 0xF1D52, 0x23D24, 0xF1D24, 0x61A4C,
    0xF0A56, 0xF14AE, 0x5256C, 0xF16B4, 0xF0DA8,
    0x31D92, 0xF0E92, 0x72D26, 0xF1526, 0xF0A56,
    0x614B6, 0xF155A, 0xF0AD4, 0x436AA, 0xF1748,
    0xF1692, 0x23526, 0xF152A, 0x72A5A, 0xF0A6C,
    0xF155A, 0x52B54, 0xF0B64, 0xF1B4A, 0x33A94,
    0xF1A94, 0x8152A, 0xF152E, 0xF0AAC, 0x6156A,
    0xF15AA, 0xF0DA4, 0x41D4A, 0xF1D4A, 0xF0C94,
    0x3192E, 0xF1536, 0x72AB4, 0xF0AD4, 0xF16D2,
    0x52EA4, 0xF16A4, 0xF164A, 0x42C96, 0xF1496,
    0x82956, 0xF055A, 0xF0ADA, 0x616D2, 0xF1B52,
    0xF1B24, 0x43A4A, 0xF1A4A, 0xA349A, 0xF14AC,
    0xF056C, 0x60B6A, 0xF0DAA, 0xF1D92, 0x53D24,
    0xF1D24, 0xF1A4C, 0x314AC, 0xF14AE, 0x829AC,
    0xF06B4, 0xF0DAA, 0x52D92, 0xF0E92, 0xF0D26,
    0x42A56, 0xF0A56, 0xF14B6, 0x22AB4, 0xF0AD4,
    0x736AA, 0xF1748, 0xF1692, 0x53526, 0xF152A,
    0xF0A5A, 0x4155A, 0xF156A, 0x92B54, 0xF0BA4,
    0xF1B4A, 0x63A94, 0xF1A94, 0xF192A, 0x42A5C,
    0xF0AAC, 0xF156A, 0x22B64, 0xF0DA4, 0x61D52,
    0xF0E4A, 0xF0C96, 0x5192E, 0xF1956, 0xF0AB4,
    0x315AC, 0xF16D2, 0xB2EA4, 0xF16A4, 0xF164A,
    0x63496, 0xF1496, 0xF0956, 0x50AB6, 0xF0B5A,
    0xF16D4, 0x236A4, 0xF1B24, 0x73A4A, 0xF1A4A,
    0xF14AA, 0x5295A, 0xF096C, 0xF0B6A, 0x31B54,
    0xF1D92, 0x83D24, 0xF1D24, 0xF1A4C, 0x614AC,
    0xF14AE, 0xF09AC, 0x40DAA, 0xF0EAA, 0xF0E92,
    0x31D26, 0xF0D26, 0x72A56, 0xF0A56, 0xF14B6,
    0x52AB4, 0xF0AD4, 0xF16CA, 0x42E94, 0xF1694,
    0x8352A, 0xF152A, 0xF0A5A, 0x6155A, 0xF156A,
    0xF0B54, 0x4174A, 0xF1B4A, 0xF1A94, 0x3392A,
    0xF192C, 0x7329C, 0xF0AAC, 0xF156A, 0x52B64,
    0xF0DA4, 0xF1D4A, 0x41C94, 0xF0C96, 0x8192E,
    0xF0956, 0xF0AB6, 0x615AC, 0xF16D4, 0xF0EA4,
    0x42E4A, 0xF164A, 0xF1516, 0x22936]"

definition START_YEAR :: int where
  "START_YEAR = 1901"

definition END_YEAR :: int where
  "END_YEAR = 1900 + int (length g_lunar_month_days)"

text \<open>
  \<^verbatim>\<open>get_leap_month\<close>: the table is indexed with \<open>lunar_year - START_YEAR\<close>, as a
  Python list, and the four bits from bit 16 are returned.
\<close>

definition get_leap_month :: "int \<Rightarrow> py_error + int" where
  "get_leap_month lunar_year =
     (case getitem g_lunar_month_days (lunar_year - START_YEAR) of
        Inl e \<Rightarrow> Inl e
      | Inr v \<Rightarrow> Inr (drop_bit 16 v AND 0x0F))"

text \<open>
  \<^verbatim>\<open>lunar_month_days\<close>: the table lookup is evaluated first, then the shift by
  \<open>lunar_month\<close>.
\<close>

definition lunar_month_days :: "int \<Rightarrow> int \<Rightarrow> py_error + int" where
  "lunar_month_days lunar_year lunar_month =
     (case getitem g_lunar_month_days (lunar_year - START_YEAR) of
        Inl e \<Rightarrow> Inl e
      | Inr v \<Rightarrow>
          (case py_rshift v lunar_month of
             Inl e \<Rightarrow> Inl e
           | Inr w \<Rightarrow> Inr (29 + (w AND 0x01))))"

text \<open>The body of the \<^verbatim>\<open>for i in range(...)\<close> loop of \<^verbatim>\<open>lunar_year_days\<close>.\<close>

fun year_days_loop :: "int \<Rightarrow> int list \<Rightarrow> int \<Rightarrow> int" where
  "year_days_loop months_day [] days = days"
| "year_days_loop months_day (i # rest) days =
     year_days_loop months_day rest (days + (29 + (drop_bit (nat i) months_day AND 0x01)))"

definition lunar_year_days :: "int \<Rightarrow> py_error + int" where
  "lunar_year_days y =
     (case getitem g_lunar_month_days (y - START_YEAR) of
        Inl e \<Rightarrow> Inl e
      | Inr months_day \<Rightarrow>
          (case get_leap_month y of
             Inl e \<Rightarrow> Inl e
           | Inr lm \<Rightarrow>
               Inr (year_days_loop months_day
                      (py_range 1 (if lm = 0x0F then 13 else 14)) 0)))"

section \<open>Dates of the standard library\<close>

text \<open>
  The proleptic Gregorian calendar of Python's \<^verbatim>\<open>datetime\<close> module, following its
  reference implementation: a date is a year, a month and a day, it has an ordinal
  (day 1 is 0001-01-01), and adding a number of days goes through the ordinal.  The
  code only ever adds whole days to midnight, so a \<^verbatim>\<open>datetime\<close> is represented by
  its date.
\<close>

record date =
  d_year :: int
  d_month :: int
  d_day :: int

definition MINYEAR :: int where "MINYEAR = 1"
definition MAXYEAR :: int where "MAXYEAR = 9999"

definition is_leap :: "int \<Rightarrow> bool" where
  "is_leap y = (y mod 4 = 0 \<and> (y mod 100 \<noteq> 0 \<or> y mod 400 = 0))"

definition DAYS_IN_MONTH :: "int list" where
  "DAYS_IN_MONTH = [-1, 31, 28, 31, 30, 31, 30, 31, 31, 30, 31, 30, 31]"

definition DAYS_BEFORE_MONTH :: "int list" where
  "DAYS_BEFORE_MONTH = [-1, 0, 31, 59, 90, 120, 151, 181, 212, 243, 273, 304, 334]"

definition days_before_year :: "int \<Rightarrow> int" where
  "days_before_year yr = (let y = yr - 1 in y * 365 + y div 4 - y div 100 + y div 400)"

definition days_in_month :: "int \<Rightarrow> int \<Rightarrow> int" where
  "days_in_month y m = (if m = 2 \<and> is_leap y then 29 else DAYS_IN_MONTH ! nat m)"

definition days_before_month :: "int \<Rightarrow> int \<Rightarrow> int" where
  "days_before_month y m =
     DAYS_BEFORE_MONTH ! nat m + (if m > 2 \<and> is_leap y then 1 else 0)"

definition ymd2ord :: "int \<Rightarrow> int \<Rightarrow> int \<Rightarrow> int" where
  "ymd2ord y m d = days_before_year y + days_before_month y m + d"

definition DI400Y :: int where "DI400Y = days_before_year 401"
definition DI100Y :: int where "DI100Y = days_before_year 101"
definition DI4Y :: int where "DI4Y = days_before_year 5"

text \<open>
  \<^verbatim>\<open>_ord2ymd\<close> first divides by the days of a 400-year cycle.  \<open>ord2ymd_cycle\<close> is
  the rest of it, with \<open>n400\<close> and \<open>n\<close> as they are after that division.
\<close>

definition ord2ymd_cycle :: "int \<Rightarrow> int \<Rightarrow> date" where
  "ord2ymd_cycle n400 n =
     (let yr = n400 * 400 + 1;
          n100 = n div DI100Y; n = n mod DI100Y;
          n4 = n div DI4Y; n = n mod DI4Y;
          n1 = n div 365; n = n mod 365;
          yr = yr + n100 * 100 + n4 * 4 + n1
      in if n1 = 4 \<or> n100 = 4 then \<lparr>d_year = yr - 1, d_month = 12, d_day = 31\<rparr>
         else
           let leapyear = (n1 = 3 \<and> (n4 \<noteq> 24 \<or> n100 = 3));
               m = drop_bit 5 (n + 50);
               preceding = DAYS_BEFORE_MONTH ! nat m + (if m > 2 \<and> leapyear then 1 else 0)
           in if preceding > n
              then let m = m - 1;
                       preceding = preceding -
                         (DAYS_IN_MONTH ! nat m + (if m = 2 \<and> leapyear then 1 else 0))
                   in \<lparr>d_year = yr, d_month = m, d_day = n - preceding + 1\<rparr>
              else \<lparr>d_year = yr, d_month = m, d_day = n - preceding + 1\<rparr>)"

definition ord2ymd :: "int \<Rightarrow> date" where
  "ord2ymd n0 =
     (let n = n0 - 1; n400 = n div DI400Y; n = n mod DI400Y in ord2ymd_cycle n400 n)"

text \<open>The constructor \<^verbatim>\<open>date(year, month, day)\<close> checks its fields.\<close>

definition mk_date :: "int \<Rightarrow> int \<Rightarrow> int \<Rightarrow> py_error + date" where
  "mk_date y m d =
     (if \<not> (MINYEAR \<le> y \<and> y \<le> MAXYEAR) then Inl ValueError
      else if \<not> (1 \<le> m \<and> m \<le> 12) then Inl ValueError
      else if \<not> (1 \<le> d \<and> d \<le> days_in_month y m) then Inl ValueError
      else Inr \<lparr>d_year = y, d_month = m, d_day = d\<rparr>)"

definition toordinal :: "date \<Rightarrow> int" where
  "toordinal dt = ymd2ord (d_year dt) (d_month dt) (d_day dt)"

definition MAXORDINAL :: int where
  "MAXORDINAL = ymd2ord MAXYEAR 12 31"

text \<open>
  \<^verbatim>\<open>dt + timedelta(n)\<close> and \<^verbatim>\<open>dt + relativedelta(days=n)\<close>: a \<^verbatim>\<open>timedelta\<close> holds
  at most 999999999 days in either direction, and the sum must be a date of the years
  \<open>MINYEAR .. MAXYEAR\<close>; otherwise OverflowError is raised.
\<close>

definition add_days :: "date \<Rightarrow> int \<Rightarrow> py_error + date" where
  "add_days dt n =
     (if \<not> (- 999999999 \<le> n \<and> n \<le> 999999999) then Inl OverflowError
      else let ordinal = toordinal dt + n
           in if 0 < ordinal \<and> ordinal \<le> MAXORDINAL then Inr (ord2ymd ordinal)
              else Inl OverflowError)"

text \<open>\<^verbatim>\<open>date.weekday()\<close>: Monday is 0 and Sunday is 6.\<close>

definition weekday :: "date \<Rightarrow> int" where
  "weekday dt = (toordinal dt + 6) mod 7"

section \<open>Lunar to solar conversion\<close>

definition SOLAR_START_DATE :: date where
  "SOLAR_START_DATE = \<lparr>d_year = 1901, d_month = 2, d_day = 19\<rparr>"

definition SOLAR_END_DATE :: date where
  "SOLAR_END_DATE = \<lparr>d_year = 2100, d_month = 2, d_day = 18\<rparr>"

text \<open>The first loop of \<^verbatim>\<open>get_solar_date\<close>, over the years before \<open>year\<close>.\<close>

fun span_years :: "int list \<Rightarrow> int \<Rightarrow> py_error + int" where
  "span_years [] span_days = Inr span_days"
| "span_years (y # rest) span_days =
     (case lunar_year_days y of
        Inl e \<Rightarrow> Inl e
      | Inr n \<Rightarrow> span_years rest (span_days + n))"

text \<open>The second loop, over the months of \<open>year\<close>.\<close>

fun span_months :: "int \<Rightarrow> int list \<Rightarrow> int \<Rightarrow> py_error + int" where
  "span_months yr [] span_days = Inr span_days"
| "span_months yr (m # rest) span_days =
     (case lunar_month_days yr m of
        Inl e \<Rightarrow> Inl e
      | Inr n \<Rightarrow> span_months yr rest (span_days + n))"

text \<open>
  The statements of \<^verbatim>\<open>get_solar_date\<close> after the first loop; \<open>span_days\<close> is the
  value that variable has there.
\<close>

definition solar_date_from :: "int \<Rightarrow> int \<Rightarrow> int \<Rightarrow> int \<Rightarrow> py_error + date" where
  "solar_date_from span_days yr mon dy =
     (case get_leap_month yr of
        Inl e \<Rightarrow> Inl e
      | Inr leap_month \<Rightarrow>
          (case span_months yr
                  (py_range 1 (mon + (if mon > leap_month then 1 else 0))) span_days of
             Inl e \<Rightarrow> Inl e
           | Inr span_days \<Rightarrow> add_days SOLAR_START_DATE (span_days + (dy - 1))))"

definition get_solar_date :: "int \<Rightarrow> int \<Rightarrow> int \<Rightarrow> py_error + date" where
  "get_solar_date yr mon dy =
     (case span_years (py_range START_YEAR yr) 0 of
        Inl e \<Rightarrow> Inl e
      | Inr span_days \<Rightarrow> solar_date_from span_days yr mon dy)"

section \<open>The holiday rules\<close>

text \<open>
  Modelled from the spec: \<^verbatim>\<open>holidays/constants.py\<close> is not among the sources.  The
  spec names the months January, April, May and September and the weekdays Saturday and
  Sunday; they are numbered as \<^verbatim>\<open>date\<close> numbers months and \<^verbatim>\<open>weekday()\<close> numbers
  days.
\<close>

definition JAN :: int where "JAN = 1"
definition APR :: int where "APR = 4"
definition MAY :: int where "MAY = 5"
definition SEP :: int where "SEP = 9"
definition SAT :: int where "SAT = 5"
definition SUN :: int where "SUN = 6"

text \<open>
  Modelled from the spec: the base class \<^verbatim>\<open>HolidayBase\<close> is not among the sources.
  The spec describes it as a mapping from a date to a holiday name, keys unique per
  date, into which \<^verbatim>\<open>_populate\<close> inserts.  The state is the list of the assignments
  \<^verbatim>\<open>self[k] = v\<close> in the order they are made, since some properties are about which
  keys are assigned and how often; the mapping they build is \<open>lookup\<close>, where the
  latest assignment to a key is the one seen.
\<close>

type_synonym holidays = "(date \<times> string) list"

definition lookup :: "holidays \<Rightarrow> date \<Rightarrow> string option" where
  "lookup h k = map_of (rev h) k"

text \<open>
  A statement runs on the holidays and either completes or raises; what it assigned
  before raising stays assigned.
\<close>

type_synonym stmt = "holidays \<Rightarrow> py_error option \<times> holidays"

definition setitem :: "date \<Rightarrow> string \<Rightarrow> stmt" where
  "setitem k v h = (None, h @ [(k, v)])"

definition raise :: "py_error \<Rightarrow> stmt" where
  "raise e h = (Some e, h)"

definition pass :: stmt where
  "pass h = (None, h)"

definition seq :: "stmt \<Rightarrow> stmt \<Rightarrow> stmt" where
  "seq f g h = (case f h of (None, h') \<Rightarrow> g h' | (Some e, h') \<Rightarrow> (Some e, h'))"

definition eval :: "py_error + 'a \<Rightarrow> ('a \<Rightarrow> stmt) \<Rightarrow> stmt" where
  "eval r k = (case r of Inl e \<Rightarrow> raise e | Inr v \<Rightarrow> k v)"

text \<open>New Year's Day, with the shift to Monday when \<^verbatim>\<open>self.observed\<close> is set.\<close>

definition new_years_day :: "bool \<Rightarrow> int \<Rightarrow> stmt" where
  "new_years_day observed yr =
     (let name = ''International New Year's Day'' in
      eval (mk_date yr JAN 1) (\<lambda>first_date.
        seq (setitem first_date name)
          (if observed then
             seq (setitem first_date name)
               (if weekday first_date = SAT then
                  eval (add_days first_date 2) (\<lambda>d. setitem d (name @ '' observed''))
                else if weekday first_date = SUN then
                  eval (add_days first_date 1) (\<lambda>d. setitem d (name @ '' observed''))
                else pass)
           else pass)))"

definition tet_names :: "string list" where
  "tet_names =
     [''Vietnamese New Year'',
      ''The second day of Tet Holiday'',
      ''The third day of Tet Holiday'',
      ''The forth day of Tet Holiday'',
      ''The fifth day of Tet Holiday'',
      ''Vietnamese New Year's Eve'']"

text \<open>The loop \<^verbatim>\<open>for i in range(-1, 5, 1)\<close>; \<^verbatim>\<open>name[-1]\<close> is the last name.\<close>

fun tet_loop :: "date \<Rightarrow> int list \<Rightarrow> stmt" where
  "tet_loop new_year_date [] = pass"
| "tet_loop new_year_date (i # rest) =
     seq (eval (add_days new_year_date i) (\<lambda>tet_day.
            eval (getitem tet_names i) (\<lambda>label. setitem tet_day label)))
         (tet_loop new_year_date rest)"

definition lunar_new_year :: "bool \<Rightarrow> int \<Rightarrow> stmt" where
  "lunar_new_year observed yr =
     eval (get_solar_date yr 1 1) (\<lambda>dt.
       eval (mk_date (d_year dt) (d_month dt) (d_day dt)) (\<lambda>new_year_date.
         if observed then tet_loop new_year_date (py_range (- 1) 5) else pass))"

definition hung_kings :: "int \<Rightarrow> stmt" where
  "hung_kings yr =
     (if yr \<ge> 2007 then
        eval (get_solar_date yr 3 10) (\<lambda>dt.
          eval (mk_date (d_year dt) (d_month dt) (d_day dt)) (\<lambda>king_hung_date.
            setitem king_hung_date ''Hung Kings Commemoration Day''))
      else pass)"

definition liberation_day :: "int \<Rightarrow> stmt" where
  "liberation_day yr =
     eval (mk_date yr APR 30) (\<lambda>libration_date.
       setitem libration_date ''Liberation Day/Reunification Day'')"

definition labor_day :: "int \<Rightarrow> stmt" where
  "labor_day yr =
     eval (mk_date yr MAY 1) (\<lambda>labor_date. setitem labor_date ''International Labor Day'')"

definition independence_day :: "int \<Rightarrow> stmt" where
  "independence_day yr =
     eval (mk_date yr SEP 2) (\<lambda>independence_date.
       setitem independence_date ''Independence Day'')"

text \<open>\<^verbatim>\<open>Vietnam._populate\<close>: the six rules in the order of the source.\<close>

definition populate :: "bool \<Rightarrow> int \<Rightarrow> stmt" where
  "populate observed yr =
     seq (new_years_day observed yr)
       (seq (lunar_new_year observed yr)
          (seq (hung_kings yr)
             (seq (liberation_day yr)
                (seq (labor_day yr) (independence_day yr)))))"

section \<open>Auxiliary definitions\<close>

text \<open>The table entry of a lunar year of the supported range.\<close>

definition encoded :: "int \<Rightarrow> int" where
  "encoded y = g_lunar_month_days ! nat (y - START_YEAR)"

text \<open>What is checked of one table entry, and of the length of one lunar year.\<close>

definition entry_ok :: "int \<Rightarrow> bool" where
  "entry_ok e = (\<not> bit e 0 \<and>
     (let l = drop_bit 16 e AND 15 in (1 \<le> l \<and> l \<le> 13) \<or> l = 15))"

definition year_length_ok :: "int \<Rightarrow> bool" where
  "year_length_ok y =
     (case lunar_year_days y of
        Inl _ \<Rightarrow> False
      | Inr d \<Rightarrow>
          (case get_leap_month y of
             Inl _ \<Rightarrow> False
           | Inr l \<Rightarrow> if l = 15 then 353 \<le> d \<and> d \<le> 355 else 383 \<le> d \<and> d \<le> 385))"

text \<open>
  The values that the lookups return for a year of the supported range, where they
  return one.
\<close>

definition year_length :: "int \<Rightarrow> int" where
  "year_length y = projr (lunar_year_days y)"

definition month_length :: "int \<Rightarrow> int \<Rightarrow> int" where
  "month_length y m = projr (lunar_month_days y m)"

definition leap_month_of :: "int \<Rightarrow> int" where
  "leap_month_of y = projr (get_leap_month y)"

text \<open>
  The day offset of a lunar date from the anchor as C1 words it, with the lengths of
  the years strictly between \<open>START_YEAR\<close> and the year; and the offset with the
  lengths of the years from \<open>START_YEAR\<close> on.
\<close>

definition offset_as_stated :: "int \<Rightarrow> int \<Rightarrow> int \<Rightarrow> int" where
  "offset_as_stated yr mon dy =
     sum_list (map year_length [START_YEAR + 1..yr - 1])
     + sum_list (map (month_length yr)
         (if mon \<le> leap_month_of yr then [1..mon - 1] else [1..mon]))
     + (dy - 1)"

definition offset_from_anchor :: "int \<Rightarrow> int \<Rightarrow> int \<Rightarrow> int" where
  "offset_from_anchor yr mon dy =
     sum_list (map year_length [START_YEAR..yr - 1])
     + sum_list (map (month_length yr)
         (if mon \<le> leap_month_of yr then [1..mon - 1] else [1..mon]))
     + (dy - 1)"

text \<open>
  A date without its year, as one number: the month times 100 plus the day.  Two dates
  with different numbers are different dates.
\<close>

definition date_key :: "date \<Rightarrow> int" where
  "date_key d = d_month d * 100 + d_day d"

text \<open>
  What is checked of the first three days of January in year \<open>r + 1\<close> of a 400-year
  cycle; \<open>c\<close> is the number of days of the cycle before that year.
\<close>

definition january_ok :: "int \<Rightarrow> bool" where
  "january_ok r =
     (let c = 365 * r + r div 4 - r div 100 in
      ord2ymd_cycle 0 c = \<lparr>d_year = r + 1, d_month = 1, d_day = 1\<rparr>
      \<and> ord2ymd_cycle 0 (c + 1) = \<lparr>d_year = r + 1, d_month = 1, d_day = 2\<rparr>
      \<and> ord2ymd_cycle 0 (c + 2) = \<lparr>d_year = r + 1, d_month = 1, d_day = 3\<rparr>)"

text \<open>
  The dates that \<open>populate\<close> gets from the converter, where the conversion returns one.
\<close>

definition new_year_date :: "int \<Rightarrow> date" where
  "new_year_date y = projr (get_solar_date y 1 1)"

definition king_hung_date :: "int \<Rightarrow> date" where
  "king_hung_date y = projr (get_solar_date y 3 10)"

text \<open>
  The assignments of the rules, in the order of the source: the entry that the loop of
  the Tet window assigns for an offset \<open>i\<close>, the shifted New Year entry, the six Tet
  entries, the commemoration day, the three fixed days, and all of them after the first
  assignment of the first of January.
\<close>

definition tet_entry :: "date \<Rightarrow> int \<Rightarrow> date \<times> string" where
  "tet_entry d i = (projr (add_days d i), projr (getitem tet_names i))"

definition shift_writes :: "bool \<Rightarrow> int \<Rightarrow> holidays" where
  "shift_writes observed y =
     (if observed \<and> weekday \<lparr>d_year = y, d_month = 1, d_day = 1\<rparr> = SAT then
        [(\<lparr>d_year = y, d_month = 1, d_day = 3\<rparr>, ''International New Year's Day observed'')]
      else if observed \<and> weekday \<lparr>d_year = y, d_month = 1, d_day = 1\<rparr> = SUN then
        [(\<lparr>d_year = y, d_month = 1, d_day = 2\<rparr>, ''International New Year's Day observed'')]
      else [])"

definition tet_writes :: "bool \<Rightarrow> int \<Rightarrow> holidays" where
  "tet_writes observed y =
     (if observed then map (tet_entry (new_year_date y)) [- 1, 0, 1, 2, 3, 4] else [])"

definition king_hung_writes :: "int \<Rightarrow> holidays" where
  "king_hung_writes y =
     (if 2007 \<le> y then [(king_hung_date y, ''Hung Kings Commemoration Day'')] else [])"

definition fixed_writes :: "int \<Rightarrow> holidays" where
  "fixed_writes y =
     [(\<lparr>d_year = y, d_month = 4, d_day = 30\<rparr>, ''Liberation Day/Reunification Day''),
      (\<lparr>d_year = y, d_month = 5, d_day = 1\<rparr>, ''International Labor Day''),
      (\<lparr>d_year = y, d_month = 9, d_day = 2\<rparr>, ''Independence Day'')]"

definition rule_writes :: "bool \<Rightarrow> int \<Rightarrow> holidays" where
  "rule_writes observed y =
     (\<lparr>d_year = y, d_month = 1, d_day = 1\<rparr>, ''International New Year's Day'')
     # shift_writes observed y @ tet_writes observed y @ king_hung_writes y @ fixed_writes y"

text \<open>
  What is checked of the dates of one lunar year: every day of the Tet window is a date,
  \<open>i\<close> days from the new year; the window lies between the 20th of January and the
  24th of February; the new year is a date of the Gregorian year with the same number,
  at the given offset from the anchor; from 2007 on, the tenth day of the third month
  is a date of March or of April before the 30th.
\<close>

definition tet_key :: "date \<Rightarrow> int \<Rightarrow> int" where
  "tet_key d i = date_key (fst (tet_entry d i))"

definition tet_day_ok :: "date \<Rightarrow> int \<Rightarrow> bool" where
  "tet_day_ok d i =
     (case add_days d i of Inl _ \<Rightarrow> False | Inr w \<Rightarrow> toordinal w = toordinal d + i)"

definition tet_window_ok :: "date \<Rightarrow> bool" where
  "tet_window_ok nyd =
     (mk_date (d_year nyd) (d_month nyd) (d_day nyd) = Inr nyd
      \<and> add_days nyd 0 = Inr nyd
      \<and> list_all (tet_day_ok nyd) [- 1, 0, 1, 2, 3, 4]
      \<and> sorted_wrt (<) (119 # map (tet_key nyd) [- 1, 0, 1, 2, 3, 4] @ [225]))"

definition new_year_ok :: "int \<Rightarrow> int \<Rightarrow> date \<Rightarrow> bool" where
  "new_year_ok y off nyd =
     (tet_window_ok nyd
      \<and> d_year nyd = y
      \<and> toordinal nyd = toordinal SOLAR_START_DATE + off
      \<and> - 11 \<le> toordinal nyd - ymd2ord y 2 1
      \<and> toordinal nyd - ymd2ord y 2 1 \<le> 19)"

definition king_hung_ok :: "int \<Rightarrow> date \<Rightarrow> bool" where
  "king_hung_ok y hk =
     (mk_date (d_year hk) (d_month hk) (d_day hk) = Inr hk
      \<and> d_year hk = y \<and> 300 < date_key hk \<and> date_key hk < 430)"

definition year_dates_ok :: "int \<Rightarrow> int \<Rightarrow> bool" where
  "year_dates_ok y off =
     ((case solar_date_from off y 1 1 of Inl _ \<Rightarrow> False | Inr nyd \<Rightarrow> new_year_ok y off nyd)
      \<and> (2007 \<le> y \<longrightarrow>
           (case solar_date_from off y 3 10 of Inl _ \<Rightarrow> False | Inr hk \<Rightarrow> king_hung_ok y hk)))"

text \<open>
  \<open>check_years\<close> walks through the years with the days summed so far, as the first loop
  of \<open>get_solar_date\<close> does, and checks each year at its offset.
\<close>

fun check_years :: "(int \<Rightarrow> int \<Rightarrow> bool) \<Rightarrow> int list \<Rightarrow> int \<Rightarrow> bool" where
  "check_years P [] acc = True"
| "check_years P (y # ys) acc = (P y acc \<and> check_years P ys (acc + year_length y))"

text \<open>
  The years for which both conversions of \<open>populate\<close> return dates that the rules can
  assign.
\<close>

definition completes :: "int \<Rightarrow> bool" where
  "completes y =
     (1 \<le> y \<and> y \<le> 9999
      \<and> get_solar_date y 1 1 = Inr (new_year_date y)
      \<and> tet_window_ok (new_year_date y)
      \<and> (2007 \<le> y \<longrightarrow>
           get_solar_date y 3 10 = Inr (king_hung_date y)
           \<and> king_hung_ok y (king_hung_date y)))"


text \<open>
  The order of \<^verbatim>\<open>date\<close> values, which compares year, month and day in this order;
  and "within \<open>lo\<close> to \<open>hi\<close> days of a reference date" as C6 words it.
\<close>

definition date_less :: "date \<Rightarrow> date \<Rightarrow> bool" where
  "date_less a b =
     (d_year a < d_year b
      \<or> d_year a = d_year b
        \<and> (d_month a < d_month b \<or> d_month a = d_month b \<and> d_day a < d_day b))"

definition within_days_of :: "date \<Rightarrow> date \<Rightarrow> int \<Rightarrow> int \<Rightarrow> bool" where
  "within_days_of d ref lo hi =
     (lo \<le> \<bar>toordinal d - toordinal ref\<bar> \<and> \<bar>toordinal d - toordinal ref\<bar> \<le> hi)"

section \<open>The table lookups on the supported range\<close>

lemma length_table: "length g_lunar_month_days = 199"
  by (simp add: g_lunar_month_days_def)

lemma END_YEAR_eq: "END_YEAR = 2099"
  by (simp add: END_YEAR_def length_table)

lemma getitem_in_range:
  assumes "START_YEAR \<le> y" "y \<le> END_YEAR"
  shows "getitem g_lunar_month_days (y - START_YEAR) = Inr (encoded y)"
  using assms
  by (simp add: getitem_def encoded_def length_table END_YEAR_eq START_YEAR_def Let_def)

lemma encoded_in_table:
  assumes "START_YEAR \<le> y" "y \<le> END_YEAR"
  shows "encoded y \<in> set g_lunar_month_days"
  unfolding encoded_def using assms
  by (intro nth_mem) (simp add: length_table END_YEAR_eq START_YEAR_def)

lemma and_one_cases: "(w::int) AND 1 = (if bit w 0 then 1 else 0)"
  by (simp add: and_one_eq bit_0 mod_2_eq_odd)

lemma lunar_month_days_in_range:
  assumes "START_YEAR \<le> y" "y \<le> END_YEAR" "0 \<le> m"
  shows "lunar_month_days y m = Inr (if bit (encoded y) (nat m) then 30 else 29)"
  using assms
  by (simp add: lunar_month_days_def getitem_in_range py_rshift_def and_one_cases
      bit_drop_bit_eq)

text \<open>
  C10: for every lunar year of \<open>START_YEAR .. END_YEAR\<close> and every month index from 1
  to 13, \<open>lunar_month_days\<close> returns 29 or 30 and raises nothing; there is no condition
  on the leap month, so month 13 of a year without a leap month is answered too.
\<close>

theorem lunar_month_days_total:
  assumes "START_YEAR \<le> y" "y \<le> END_YEAR" "1 \<le> m" "m \<le> 13"
  shows "lunar_month_days y m = Inr 29 \<or> lunar_month_days y m = Inr 30"
  using assms by (simp add: lunar_month_days_in_range)

theorem lunar_month_days_total_witness:
  "START_YEAR \<le> 1901 \<and> 1901 \<le> END_YEAR \<and> (1::int) \<le> 13 \<and> get_leap_month 1901 = Inr 15
   \<and> (lunar_month_days 1901 13 = Inr 29 \<or> lunar_month_days 1901 13 = Inr 30)"
proof -
  have a: "START_YEAR \<le> 1901" by (simp add: START_YEAR_def)
  have b: "1901 \<le> END_YEAR" by (simp add: END_YEAR_eq)
  have c: "get_leap_month 1901 = Inr 15"
    by (simp add: get_leap_month_def getitem_def START_YEAR_def g_lunar_month_days_def)
  show ?thesis using a b c lunar_month_days_total [OF a b, of 13] by simp
qed

lemma get_leap_month_in_range:
  assumes "START_YEAR \<le> y" "y \<le> END_YEAR"
  shows "get_leap_month y = Inr (take_bit 4 (drop_bit 16 (encoded y)))"
  using assms
  by (simp add: get_leap_month_def getitem_in_range take_bit_eq_mask mask_eq_exp_minus_1)

lemma all_entries_ok: "list_all entry_ok g_lunar_month_days"
  by code_simp

lemma all_years_length_ok: "list_all year_length_ok [1901..2099]"
  by code_simp

text \<open>
  C4, as stated: the length of lunar month \<open>m\<close> is read from bit \<open>m - 1\<close> of the
  entry.  It fails for month 2 of 1901, whose length is 30 days while bit 1 of the
  entry \<open>0xF0EA4\<close> is 0.
\<close>

theorem month_bit_counterexample:
  "\<not> (lunar_month_days 1901 2 = Inr (if bit (encoded 1901) (nat (2 - 1)) then 30 else 29))"
  by code_simp

text \<open>
  C4, amended: for every lunar year of \<open>START_YEAR .. END_YEAR\<close>, the length of lunar
  month \<open>m\<close>, for \<open>m\<close> from 1 to 13, is read from bit \<open>m\<close> of the entry (30 days when
  the bit is 1, 29 days when it is 0), so the month lengths are in bits 1 to 13 and bit
  0 is not used (it is 0 in every entry); the leap month is read from bits 16 to 19 and
  is an index from 1 to 13 or the value 15.
\<close>

theorem table_layout:
  assumes "START_YEAR \<le> y" "y \<le> END_YEAR"
  shows "(\<forall>m\<in>{1..13}. lunar_month_days y m = Inr (if bit (encoded y) (nat m) then 30 else 29))
       \<and> \<not> bit (encoded y) 0
       \<and> get_leap_month y = Inr (take_bit 4 (drop_bit 16 (encoded y)))
       \<and> take_bit 4 (drop_bit 16 (encoded y)) \<in> {1..13} \<union> {15}"
proof -
  have "entry_ok (encoded y)"
    using all_entries_ok encoded_in_table [OF assms] by (simp add: list_all_iff)
  then have e: "\<not> bit (encoded y) 0"
      and l: "take_bit 4 (drop_bit 16 (encoded y)) \<in> {1..13} \<union> {15}"
    by (auto simp add: entry_ok_def Let_def take_bit_eq_mask mask_eq_exp_minus_1)
  have m: "\<forall>m\<in>{1..13}. lunar_month_days y m = Inr (if bit (encoded y) (nat m) then 30 else 29)"
    using assms by (simp add: lunar_month_days_in_range)
  show ?thesis using e l m get_leap_month_in_range [OF assms] by blast
qed

theorem table_layout_witness:
  "START_YEAR \<le> 2023 \<and> 2023 \<le> END_YEAR \<and> lunar_month_days 2023 2 = Inr 30
   \<and> bit (encoded 2023) 2 \<and> get_leap_month 2023 = Inr 2"
proof -
  have a: "START_YEAR \<le> 2023" by (simp add: START_YEAR_def)
  have b: "2023 \<le> END_YEAR" by (simp add: END_YEAR_eq)
  have c: "bit (encoded 2023) 2" "take_bit 4 (drop_bit 16 (encoded 2023)) = 2"
    by code_simp+
  show ?thesis using a b c table_layout [OF a b] by simp
qed

text \<open>
  C5: for every lunar year of \<open>START_YEAR .. END_YEAR\<close>, \<open>lunar_year_days\<close> returns a
  length between 353 and 385; the length is between 383 and 385 exactly when the leap
  month is not 15, and between 353 and 355 otherwise.
\<close>

theorem lunar_year_days_bounds:
  assumes "START_YEAR \<le> y" "y \<le> END_YEAR"
  shows "\<exists>d l. lunar_year_days y = Inr d \<and> get_leap_month y = Inr l
           \<and> 353 \<le> d \<and> d \<le> 385
           \<and> ((383 \<le> d \<and> d \<le> 385) = (l \<noteq> 15))
           \<and> (l = 15 \<longrightarrow> 353 \<le> d \<and> d \<le> 355)"
proof -
  have "\<forall>y\<in>{1901..2099}. year_length_ok y"
    using all_years_length_ok unfolding list_all_iff set_upto .
  then have "year_length_ok y"
    using assms by (simp add: START_YEAR_def END_YEAR_eq)
  then show ?thesis
    by (auto simp add: year_length_ok_def split: sum.splits if_splits)
qed

theorem lunar_year_days_bounds_witness:
  "START_YEAR \<le> 2023 \<and> 2023 \<le> END_YEAR
   \<and> lunar_year_days 2023 = Inr 384 \<and> get_leap_month 2023 = Inr 2"
proof -
  have a: "START_YEAR \<le> 2023" by (simp add: START_YEAR_def)
  have b: "2023 \<le> END_YEAR" by (simp add: END_YEAR_eq)
  have c: "lunar_year_days 2023 = Inr 384" "get_leap_month 2023 = Inr 2" by code_simp+
  show ?thesis using a b c lunar_year_days_bounds [OF a b] by simp
qed

section \<open>The anchors and the years below the range\<close>

text \<open>
  C2: the first lunar day of \<open>START_YEAR\<close> is converted to \<open>SOLAR_START_DATE\<close>.  The
  last lunar day of 2099 is converted to 2100-02-08, the date that the comment on
  \<open>SOLAR_END_DATE\<close> gives, and not to the constant itself, which is 2100-02-18.
\<close>

theorem anchors_evaluated:
  "get_solar_date START_YEAR 1 1 = Inr SOLAR_START_DATE
   \<and> get_solar_date 2099 12 30 = Inr \<lparr>d_year = 2100, d_month = 2, d_day = 8\<rparr>
   \<and> get_solar_date 2099 12 30 \<noteq> Inr SOLAR_END_DATE"
  by code_simp

text \<open>
  C3: the year 1900 is below \<open>START_YEAR\<close>, and every lookup returns a value for it:
  the index \<open>-1\<close> selects the last entry of the table, that of 2099.  The conversion
  sums no year and returns the start anchor, and \<open>populate\<close> completes.
\<close>

theorem below_range_evaluated:
  "get_leap_month 1900 = Inr 2 \<and> lunar_month_days 1900 1 = Inr 30
   \<and> lunar_year_days 1900 = Inr 384
   \<and> get_solar_date 1900 1 1 = Inr SOLAR_START_DATE
   \<and> fst (populate True 1900 []) = None"
  by code_simp

section \<open>The conversion as a sum of lengths\<close>

lemma lunar_year_days_in_range:
  assumes "START_YEAR \<le> y" "y \<le> END_YEAR"
  shows "lunar_year_days y = Inr (year_length y)"
  using assms
  by (simp add: year_length_def lunar_year_days_def getitem_in_range get_leap_month_in_range)

lemma leap_month_of_in_range:
  assumes "START_YEAR \<le> y" "y \<le> END_YEAR"
  shows "get_leap_month y = Inr (leap_month_of y)"
  using assms by (simp add: leap_month_of_def get_leap_month_in_range)

lemma month_length_in_range:
  assumes "START_YEAR \<le> y" "y \<le> END_YEAR" "0 \<le> m"
  shows "lunar_month_days y m = Inr (month_length y m)"
  using assms by (simp add: month_length_def lunar_month_days_in_range)

lemma span_years_sum:
  assumes "\<forall>y\<in>set ys. START_YEAR \<le> y \<and> y \<le> END_YEAR"
  shows "span_years ys acc = Inr (acc + sum_list (map year_length ys))"
  using assms
  by (induction ys arbitrary: acc) (simp_all add: lunar_year_days_in_range)

lemma span_months_sum:
  assumes "START_YEAR \<le> y" "y \<le> END_YEAR" "\<forall>m\<in>set ms. 0 \<le> m"
  shows "span_months y ms acc = Inr (acc + sum_list (map (month_length y) ms))"
  using assms
  by (induction ms arbitrary: acc) (simp_all add: month_length_in_range)

lemma get_solar_date_offset:
  assumes "START_YEAR \<le> yr" "yr \<le> END_YEAR"
  shows "get_solar_date yr mon dy = add_days SOLAR_START_DATE (offset_from_anchor yr mon dy)"
proof -
  let ?S = "sum_list (map year_length [START_YEAR..yr - 1])"
  have y: "span_years (py_range START_YEAR yr) 0 = Inr ?S"
    using assms span_years_sum [of "[START_YEAR..yr - 1]" 0] by (simp add: py_range_def)
  have m: "span_months yr [1..k] acc = Inr (acc + sum_list (map (month_length yr) [1..k]))"
    for k acc
    using assms span_months_sum [of yr "[1..k]" acc] by simp
  have "get_solar_date yr mon dy = solar_date_from ?S yr mon dy"
    by (simp add: get_solar_date_def y)
  also have "\<dots> = add_days SOLAR_START_DATE (offset_from_anchor yr mon dy)"
    using assms
    by (simp add: solar_date_from_def leap_month_of_in_range py_range_def m
        offset_from_anchor_def)
  finally show ?thesis .
qed

text \<open>
  C1, as stated: the conversion adds to the anchor the lengths of the lunar years
  strictly between \<open>START_YEAR\<close> and the year.  It fails for the first day of 1902:
  no year lies strictly between 1901 and 1902, so the stated sum is the anchor itself,
  while the code returns 1902-02-08, one lunar year after the anchor.
\<close>

theorem prefix_sum_counterexample:
  "get_solar_date 1902 1 1 \<noteq> add_days SOLAR_START_DATE (offset_as_stated 1902 1 1)"
  by code_simp


lemma year_length_bounds:
  assumes "START_YEAR \<le> y" "y \<le> END_YEAR"
  shows "353 \<le> year_length y \<and> year_length y \<le> 385"
proof -
  have "\<forall>y\<in>{1901..2099}. year_length_ok y"
    using all_years_length_ok unfolding list_all_iff set_upto .
  then have "year_length_ok y"
    using assms by (simp add: START_YEAR_def END_YEAR_eq)
  then show ?thesis
    by (auto simp add: year_length_ok_def year_length_def split: sum.splits if_splits)
qed

lemma month_length_bounds:
  assumes "START_YEAR \<le> y" "y \<le> END_YEAR" "0 \<le> m"
  shows "29 \<le> month_length y m \<and> month_length y m \<le> 30"
  using assms by (simp add: month_length_def lunar_month_days_in_range)

lemma sum_list_bounds:
  fixes f :: "int \<Rightarrow> int"
  assumes "\<forall>x\<in>set xs. lo \<le> f x \<and> f x \<le> hi"
  shows "lo * int (length xs) \<le> sum_list (map f xs)
       \<and> sum_list (map f xs) \<le> hi * int (length xs)"
  using assms by (induction xs) (auto simp add: algebra_simps)

lemma offset_from_anchor_bounds:
  assumes "START_YEAR \<le> yr" "yr \<le> END_YEAR" "1 \<le> mon" "mon \<le> 12" "1 \<le> dy" "dy \<le> 30"
  shows "0 \<le> offset_from_anchor yr mon dy \<and> offset_from_anchor yr mon dy \<le> 76649"
proof -
  have ys: "\<forall>y\<in>set [START_YEAR..yr - 1]. 353 \<le> year_length y \<and> year_length y \<le> 385"
    using assms year_length_bounds by simp
  have "length [START_YEAR..yr - 1] \<le> 198"
    using assms by (simp add: START_YEAR_def END_YEAR_eq)
  then have a: "0 \<le> sum_list (map year_length [START_YEAR..yr - 1])
          \<and> sum_list (map year_length [START_YEAR..yr - 1]) \<le> 385 * 198"
    using sum_list_bounds [OF ys] by (auto simp del: length_upto)
  have ms: "\<forall>m\<in>set [1..k]. 29 \<le> month_length yr m \<and> month_length yr m \<le> 30" for k
    using assms month_length_bounds by simp
  have b: "0 \<le> sum_list (map (month_length yr) [1..k])
         \<and> sum_list (map (month_length yr) [1..k]) \<le> 30 * 13" if "k \<le> 13" for k
    using sum_list_bounds [OF ms, of k] that by (auto split: if_splits)
  show ?thesis
    using a b [of "mon - 1"] b [of mon] assms by (simp add: offset_from_anchor_def)
qed

text \<open>
  C1, amended: for every lunar year of \<open>START_YEAR .. END_YEAR\<close>, month from 1 to 12
  and day from 1 to 30, \<open>get_solar_date\<close> returns a date, and that date is the anchor
  plus the lengths of the lunar years from \<open>START_YEAR\<close> (included) up to the year
  (excluded), plus the lengths of the months 1 to \<open>month - 1\<close> when the month is at
  most the leap month and of the months 1 to \<open>month\<close> when it is greater, plus
  \<open>day - 1\<close> days.
\<close>

theorem get_solar_date_sum:
  assumes "START_YEAR \<le> yr" "yr \<le> END_YEAR" "1 \<le> mon" "mon \<le> 12" "1 \<le> dy" "dy \<le> 30"
  shows "(\<exists>d. get_solar_date yr mon dy = Inr d)
       \<and> get_solar_date yr mon dy
           = add_days SOLAR_START_DATE
               (sum_list (map year_length [START_YEAR..yr - 1])
                + sum_list (map (month_length yr)
                    (if mon \<le> leap_month_of yr then [1..mon - 1] else [1..mon]))
                + (dy - 1))
       \<and> (\<forall>y\<in>set [START_YEAR..yr - 1]. lunar_year_days y = Inr (year_length y))
       \<and> (\<forall>m\<in>set [1..mon]. lunar_month_days yr m = Inr (month_length yr m))
       \<and> get_leap_month yr = Inr (leap_month_of yr)"
proof -
  have e: "get_solar_date yr mon dy = add_days SOLAR_START_DATE (offset_from_anchor yr mon dy)"
    using assms by (simp add: get_solar_date_offset)
  have o: "toordinal SOLAR_START_DATE = 694010" "MAXORDINAL = 3652059"
    by code_simp+
  have "\<exists>d. add_days SOLAR_START_DATE (offset_from_anchor yr mon dy) = Inr d"
    using offset_from_anchor_bounds [OF assms] by (simp add: add_days_def o Let_def)
  then show ?thesis
    using e assms
    by (simp add: offset_from_anchor_def lunar_year_days_in_range month_length_in_range
        leap_month_of_in_range)
qed

theorem get_solar_date_sum_witness:
  "START_YEAR \<le> 1909 \<and> 1909 \<le> END_YEAR \<and> get_leap_month 1909 = Inr 2
   \<and> get_solar_date 1909 3 10 = add_days SOLAR_START_DATE (2894 + 88 + 9)
   \<and> get_solar_date 1909 3 10 = Inr \<lparr>d_year = 1909, d_month = 4, d_day = 29\<rparr>"
proof -
  have a: "START_YEAR \<le> 1909" by (simp add: START_YEAR_def)
  have b: "1909 \<le> END_YEAR" by (simp add: END_YEAR_eq)
  have c: "sum_list (map year_length [START_YEAR..1909 - 1]) = 2894"
    "sum_list (map (month_length 1909)
       (if 3 \<le> leap_month_of 1909 then [1..3 - 1] else [1..3])) = 88"
    "get_leap_month 1909 = Inr 2"
    "add_days SOLAR_START_DATE (2894 + 88 + 9) = Inr \<lparr>d_year = 1909, d_month = 4, d_day = 29\<rparr>"
    by code_simp+
  show ?thesis
    using a b c get_solar_date_sum [OF a b, of 3 10] by simp
qed

section \<open>Dates in January\<close>

lemma DI_values: "DI400Y = 146097" "DI100Y = 36524" "DI4Y = 1461"
  by (simp_all add: DI400Y_def DI100Y_def DI4Y_def days_before_year_def)

lemma ord2ymd_cycle_year:
  "ord2ymd_cycle q m = (ord2ymd_cycle 0 m)\<lparr>d_year := d_year (ord2ymd_cycle 0 m) + 400 * q\<rparr>"
  unfolding ord2ymd_cycle_def Let_def
  by (simp only: if_distrib [of "d_year"] if_distrib [of "d_year_update f" for f]
     date.simps if_cancel if_True if_False mult_zero_left add_0 add.assoc
     add.commute add.left_commute mult.commute diff_conv_add_uminus cong: if_cong)

lemma all_january_ok: "list_all january_ok [0..399]"
  by code_simp

lemma days_before_year_split:
  "days_before_year y
     = 146097 * ((y - 1) div 400)
       + (365 * ((y - 1) mod 400) + (y - 1) mod 400 div 4 - (y - 1) mod 400 div 100)"
proof -
  define q where "q = (y - 1) div 400"
  define r where "r = (y - 1) mod 400"
  have y: "y - 1 = 400 * q + r" by (simp add: q_def r_def)
  have "(4 * (100 * q) + r) div 4 = 100 * q + r div 4"
    "(100 * (4 * q) + r) div 100 = 4 * q + r div 100"
    by (simp_all only: div_mult_self4 [of _ _ r] zero_neq_numeral not_False_eq_True)
  then have d: "(400 * q + r) div 4 = 100 * q + r div 4"
    "(400 * q + r) div 100 = 4 * q + r div 100"
    by simp_all
  have "r div 400 = 0" by (simp add: r_def)
  then have d4: "(400 * q + r) div 400 = q"
    by simp
  have "days_before_year y = 146097 * q + (365 * r + r div 4 - r div 100)"
    unfolding days_before_year_def Let_def y d d4 by simp
  then show ?thesis
    unfolding q_def r_def .
qed

lemma january_dates:
  assumes "1 \<le> y" "0 \<le> k" "k \<le> 2"
  shows "ord2ymd (days_before_year y + 1 + k) = \<lparr>d_year = y, d_month = 1, d_day = 1 + k\<rparr>"
proof -
  define q where "q = (y - 1) div 400"
  define r where "r = (y - 1) mod 400"
  define c where "c = 365 * r + r div 4 - r div 100"
  have r: "0 \<le> r" "r \<le> 399" by (simp_all add: r_def)
  have y: "y = 400 * q + r + 1" by (simp add: q_def r_def)
  have "0 \<le> r div 100" "r div 100 \<le> r div 4" "r div 4 \<le> 399 div 4"
    using r by (simp_all add: zdiv_mono2 zdiv_mono1)
  then have c: "0 \<le> c" "c + k < 146097"
    using r assms unfolding c_def by simp_all
  have n: "days_before_year y = 146097 * q + c"
    unfolding days_before_year_split q_def r_def c_def ..
  have dm: "(146097 * q + (c + k)) div 146097 = q" "(146097 * q + (c + k)) mod 146097 = c + k"
    using c assms by simp_all
  have "ord2ymd (days_before_year y + 1 + k) = ord2ymd_cycle q (c + k)"
    using dm by (simp add: ord2ymd_def n DI_values Let_def add.assoc)
  also have "\<dots> = (ord2ymd_cycle 0 (c + k))\<lparr>d_year := d_year (ord2ymd_cycle 0 (c + k)) + 400 * q\<rparr>"
    by (rule ord2ymd_cycle_year)
  finally have e: "ord2ymd (days_before_year y + 1 + k)
      = (ord2ymd_cycle 0 (c + k))\<lparr>d_year := d_year (ord2ymd_cycle 0 (c + k)) + 400 * q\<rparr>" .
  have "\<forall>r\<in>{0..399}. january_ok r"
    using all_january_ok unfolding list_all_iff set_upto .
  then have "january_ok r" using r by simp
  then have j: "ord2ymd_cycle 0 c = \<lparr>d_year = r + 1, d_month = 1, d_day = 1\<rparr>"
    "ord2ymd_cycle 0 (c + 1) = \<lparr>d_year = r + 1, d_month = 1, d_day = 2\<rparr>"
    "ord2ymd_cycle 0 (c + 2) = \<lparr>d_year = r + 1, d_month = 1, d_day = 3\<rparr>"
    by (simp_all add: january_ok_def c_def Let_def)
  have "k = 0 \<or> k = 1 \<or> k = 2" using assms by arith
  then show ?thesis
    using e j y by auto
qed


lemma MAXORDINAL_eq: "MAXORDINAL = 3652059"
  by (simp add: MAXORDINAL_def MAXYEAR_def ymd2ord_def days_before_year_def
      days_before_month_def DAYS_BEFORE_MONTH_def is_leap_def)

lemma toordinal_january:
  "toordinal \<lparr>d_year = y, d_month = 1, d_day = d\<rparr> = days_before_year y + d"
  by (simp add: toordinal_def ymd2ord_def days_before_month_def DAYS_BEFORE_MONTH_def)

lemma days_before_year_bounds:
  assumes "1 \<le> y" "y \<le> 9999"
  shows "0 \<le> days_before_year y \<and> days_before_year y \<le> 3651793"
proof -
  define z where "z = y - 1"
  have z: "0 \<le> z" "z \<le> 9998" using assms by (simp_all add: z_def)
  have "z div 100 \<le> z div 4" "z div 4 \<le> 9998 div 4" "0 \<le> z div 400" "z div 400 \<le> 9998 div 400"
    "0 \<le> z div 100"
    using z by (simp_all add: zdiv_mono2 zdiv_mono1)
  then show ?thesis
    using z unfolding days_before_year_def Let_def z_def [symmetric] by simp
qed

lemma add_days_january:
  assumes "1 \<le> y" "y \<le> 9999" "0 \<le> k" "k \<le> 2"
  shows "add_days \<lparr>d_year = y, d_month = 1, d_day = 1\<rparr> k
       = Inr \<lparr>d_year = y, d_month = 1, d_day = 1 + k\<rparr>"
  using assms days_before_year_bounds [of y] january_dates [of y k]
  by (simp add: add_days_def toordinal_january MAXORDINAL_eq Let_def)

lemma mk_date_rules:
  assumes "1 \<le> y" "y \<le> 9999"
  shows "mk_date y JAN 1 = Inr \<lparr>d_year = y, d_month = 1, d_day = 1\<rparr>"
    and "mk_date y APR 30 = Inr \<lparr>d_year = y, d_month = 4, d_day = 30\<rparr>"
    and "mk_date y MAY 1 = Inr \<lparr>d_year = y, d_month = 5, d_day = 1\<rparr>"
    and "mk_date y SEP 2 = Inr \<lparr>d_year = y, d_month = 9, d_day = 2\<rparr>"
  using assms
  by (simp_all add: mk_date_def MINYEAR_def MAXYEAR_def JAN_def APR_def MAY_def SEP_def
      days_in_month_def DAYS_IN_MONTH_def)

section \<open>The rules, one by one\<close>

lemma seq_completes: "f h = (None, h') \<Longrightarrow> seq f g h = g h'"
  by (simp add: seq_def)

lemma seq_raises: "f h = (Some e, h') \<Longrightarrow> seq f g h = (Some e, h')"
  by (simp add: seq_def)

lemma eval_simps [simp]: "eval (Inr v) k = k v" "eval (Inl e) k = raise e"
  by (simp_all add: eval_def)

lemma new_years_day_run:
  assumes "1 \<le> y" "y \<le> 9999"
  shows "new_years_day observed y h
       = (None, h @ (\<lparr>d_year = y, d_month = 1, d_day = 1\<rparr>, ''International New Year's Day'')
                     # (if observed
                        then [(\<lparr>d_year = y, d_month = 1, d_day = 1\<rparr>,
                               ''International New Year's Day'')]
                        else [])
                     @ shift_writes observed y)"
  using assms add_days_january [of y 1] add_days_january [of y 2]
  by (simp add: new_years_day_def shift_writes_def mk_date_rules seq_def setitem_def
      pass_def Let_def)

lemma tet_loop_run:
  assumes "\<forall>i\<in>set js. (\<exists>w. add_days d i = Inr w) \<and> - 6 \<le> i \<and> i < 6"
  shows "tet_loop d js h = (None, h @ map (tet_entry d) js)"
  using assms
proof (induction js arbitrary: h)
  case Nil
  then show ?case by (simp add: pass_def)
next
  case (Cons i js)
  from Cons.prems obtain w where w: "add_days d i = Inr w" and i: "- 6 \<le> i" "i < 6"
    by auto
  have g: "getitem tet_names i = Inr (projr (getitem tet_names i))"
    using i by (simp add: getitem_def tet_names_def)
  have "seq (eval (add_days d i) (\<lambda>tet_day.
            eval (getitem tet_names i) (\<lambda>label. setitem tet_day label))) (tet_loop d js) h
        = tet_loop d js (h @ [tet_entry d i])"
    by (subst g) (simp add: w seq_def setitem_def tet_entry_def)
  then show ?case
    using Cons by simp
qed


section \<open>The dates of every year of the supported range\<close>

lemma all_year_dates_ok: "check_years year_dates_ok [1901..2099] 0"
  by code_simp

lemma check_years_at:
  assumes "check_years P (xs @ y # zs) acc"
  shows "P y (acc + sum_list (map year_length xs))"
  using assms
proof (induction xs arbitrary: acc)
  case Nil
  then show ?case by simp
next
  case (Cons a xs)
  then have "P y (acc + year_length a + sum_list (map year_length xs))"
    by simp
  then show ?case by (simp add: add.assoc)
qed

lemma year_dates_in_range:
  assumes "START_YEAR \<le> y" "y \<le> END_YEAR"
  shows "year_dates_ok y (sum_list (map year_length [START_YEAR..y - 1]))"
proof -
  have "[1901..2099] = [1901..y - 1] @ y # [y + 1..2099]"
    using assms by (intro upto_split3) (simp_all add: START_YEAR_def END_YEAR_eq)
  then have "check_years year_dates_ok ([1901..y - 1] @ y # [y + 1..2099]) 0"
    using all_year_dates_ok by simp
  from check_years_at [OF this] show ?thesis
    by (simp add: START_YEAR_def)
qed

lemma get_solar_date_from:
  assumes "START_YEAR \<le> y" "y \<le> END_YEAR"
  shows "get_solar_date y m d
       = solar_date_from (sum_list (map year_length [START_YEAR..y - 1])) y m d"
proof -
  have "span_years (py_range START_YEAR y) 0 = Inr (sum_list (map year_length [START_YEAR..y - 1]))"
    using assms span_years_sum [of "[START_YEAR..y - 1]" 0] by (simp add: py_range_def)
  then show ?thesis
    by (simp add: get_solar_date_def)
qed


lemma new_year_facts:
  assumes "START_YEAR \<le> y" "y \<le> END_YEAR"
  shows "get_solar_date y 1 1 = Inr (new_year_date y)"
    and "new_year_ok y (sum_list (map year_length [START_YEAR..y - 1])) (new_year_date y)"
  using year_dates_in_range [OF assms]
  by (auto simp add: year_dates_ok_def new_year_date_def get_solar_date_from [OF assms]
      split: sum.splits)

lemma king_hung_facts:
  assumes "START_YEAR \<le> y" "y \<le> END_YEAR" "2007 \<le> y"
  shows "get_solar_date y 3 10 = Inr (king_hung_date y)"
    and "king_hung_ok y (king_hung_date y)"
  using year_dates_in_range [OF assms(1,2)] assms(3)
  by (auto simp add: year_dates_ok_def king_hung_date_def get_solar_date_from [OF assms(1,2)]
      split: sum.splits)

lemma completes_in_range:
  assumes "START_YEAR \<le> y" "y \<le> END_YEAR"
  shows "completes y"
  using assms new_year_facts [OF assms] king_hung_facts [OF assms]
  by (simp add: completes_def new_year_ok_def START_YEAR_def END_YEAR_eq)

lemma lunar_new_year_run:
  assumes "completes y"
  shows "lunar_new_year observed y h = (None, h @ tet_writes observed y)"
proof -
  let ?d = "new_year_date y"
  have c: "get_solar_date y 1 1 = Inr ?d" "mk_date (d_year ?d) (d_month ?d) (d_day ?d) = Inr ?d"
    "list_all (tet_day_ok ?d) [- 1, 0, 1, 2, 3, 4]"
    using assms by (simp_all add: completes_def tet_window_ok_def)
  have "\<forall>i\<in>set [- 1, 0, 1, 2, 3, 4]. (\<exists>w. add_days ?d i = Inr w) \<and> - 6 \<le> i \<and> i < 6"
    using c(3) by (simp add: tet_day_ok_def split: sum.splits)
  from tet_loop_run [OF this]
  have t: "tet_loop ?d [- 1, 0, 1, 2, 3, 4] h = (None, h @ map (tet_entry ?d) [- 1, 0, 1, 2, 3, 4])" .
  have r: "py_range (- 1) 5 = [- 1, 0, 1, 2, 3, 4]"
    by (simp add: py_range_def upto_rec1)
  show ?thesis
    by (simp add: lunar_new_year_def c r t tet_writes_def pass_def del: tet_loop.simps)
qed

lemma hung_kings_run:
  assumes "completes y"
  shows "hung_kings y h = (None, h @ king_hung_writes y)"
proof (cases "2007 \<le> y")
  case True
  let ?d = "king_hung_date y"
  have "get_solar_date y 3 10 = Inr ?d" "mk_date (d_year ?d) (d_month ?d) (d_day ?d) = Inr ?d"
    using assms True unfolding completes_def king_hung_ok_def by blast+
  then show ?thesis
    using True by (simp add: hung_kings_def king_hung_writes_def setitem_def)
next
  case False
  then show ?thesis
    by (simp add: hung_kings_def king_hung_writes_def pass_def)
qed

lemma fixed_days_run:
  assumes "1 \<le> y" "y \<le> 9999"
  shows "seq (liberation_day y) (seq (labor_day y) (independence_day y)) h
       = (None, h @ fixed_writes y)"
  using assms
  by (simp add: liberation_day_def labor_day_def independence_day_def mk_date_rules
      seq_def setitem_def fixed_writes_def)

lemma populate_completes:
  assumes "completes y"
  shows "populate observed y h
       = (None, h @ (if observed
                     then [(\<lparr>d_year = y, d_month = 1, d_day = 1\<rparr>,
                            ''International New Year's Day'')]
                     else [])
                   @ rule_writes observed y)"
proof -
  have y: "1 \<le> y" "y \<le> 9999" using assms by (simp_all add: completes_def)
  show ?thesis
    unfolding populate_def
    by (simp add: seq_completes [OF new_years_day_run [OF y]]
        seq_completes [OF lunar_new_year_run [OF assms]]
        seq_completes [OF hung_kings_run [OF assms]]
        fixed_days_run [OF y] rule_writes_def)
qed


section \<open>The dates assigned by the rules are in increasing order\<close>

lemma lookup_iff:
  assumes "distinct (map fst xs)"
  shows "(lookup xs k = Some v) = ((k, v) \<in> set xs)"
proof -
  have "distinct (map fst (rev xs))"
    using assms by (simp add: rev_map [symmetric])
  then show ?thesis
    by (simp add: lookup_def)
qed

lemma lookup_None_iff: "(lookup xs k = None) = (k \<notin> fst ` set xs)"
  by (simp add: lookup_def map_of_eq_None_iff)

lemma lookup_repeat: "lookup (a # a # xs) = lookup (a # xs)"
  by (rule ext) (simp add: lookup_def map_add_def split: option.splits)

lemma keys_distinct:
  assumes "sorted_wrt (<) (map (date_key \<circ> fst) xs)"
  shows "distinct (map fst xs)"
  using assms by (induction xs) force+

lemma date_key_simps [simp]:
  "date_key \<lparr>d_year = y, d_month = m, d_day = d\<rparr> = m * 100 + d"
  by (simp add: date_key_def)

lemma sorted_keys_append:
  fixes ks :: "int list"
  assumes "sorted_wrt (<) ks \<and> (\<forall>k\<in>set ks. lo \<le> k \<and> k \<le> mid)"
    and "sorted_wrt (<) ks' \<and> (\<forall>k\<in>set ks'. mid' \<le> k \<and> k \<le> hi)"
    and "mid < mid'" "lo \<le> mid" "mid' \<le> hi"
  shows "sorted_wrt (<) (ks @ ks') \<and> (\<forall>k\<in>set (ks @ ks'). lo \<le> k \<and> k \<le> hi)"
  using assms by (fastforce simp add: sorted_wrt_append)

lemma sorted_keys_inside:
  fixes ks :: "int list"
  assumes "sorted_wrt (<) (lo # ks @ [hi])"
  shows "sorted_wrt (<) ks \<and> (\<forall>k\<in>set ks. lo + 1 \<le> k \<and> k \<le> hi - 1)"
  using assms by (fastforce simp add: sorted_wrt_append)

lemma shift_keys:
  "sorted_wrt (<) (map (date_key \<circ> fst) (shift_writes observed y))
   \<and> (\<forall>k\<in>set (map (date_key \<circ> fst) (shift_writes observed y)). 102 \<le> k \<and> k \<le> 103)"
  by (simp add: shift_writes_def)

lemma tet_keys:
  assumes "completes y"
  shows "sorted_wrt (<) (map (date_key \<circ> fst) (tet_writes observed y))
   \<and> (\<forall>k\<in>set (map (date_key \<circ> fst) (tet_writes observed y)). 120 \<le> k \<and> k \<le> 224)"
proof (cases observed)
  case True
  let ?ks = "map (tet_key (new_year_date y)) [- 1, 0, 1, 2, 3, 4]"
  have "sorted_wrt (<) (119 # ?ks @ [225])"
    using assms by (simp add: completes_def tet_window_ok_def)
  from sorted_keys_inside [OF this]
  have "sorted_wrt (<) ?ks \<and> (\<forall>k\<in>set ?ks. 120 \<le> k \<and> k \<le> 224)"
    by simp
  moreover have "map (date_key \<circ> fst) (tet_writes observed y) = ?ks"
    using True by (simp add: tet_writes_def tet_key_def)
  ultimately show ?thesis by simp
next
  case False
  then show ?thesis by (simp add: tet_writes_def)
qed

lemma king_hung_keys:
  assumes "completes y"
  shows "sorted_wrt (<) (map (date_key \<circ> fst) (king_hung_writes y))
   \<and> (\<forall>k\<in>set (map (date_key \<circ> fst) (king_hung_writes y)). 301 \<le> k \<and> k \<le> 429)"
  using assms by (auto simp add: king_hung_writes_def completes_def king_hung_ok_def)

lemma fixed_keys:
  "sorted_wrt (<) (map (date_key \<circ> fst) (fixed_writes y))
   \<and> (\<forall>k\<in>set (map (date_key \<circ> fst) (fixed_writes y)). 430 \<le> k \<and> k \<le> 902)"
  by (simp add: fixed_writes_def)

lemma later_keys:
  assumes "completes y"
  shows "sorted_wrt (<)
           (map (date_key \<circ> fst) (tet_writes observed y @ king_hung_writes y @ fixed_writes y))
       \<and> (\<forall>k\<in>set (map (date_key \<circ> fst)
                       (tet_writes observed y @ king_hung_writes y @ fixed_writes y)).
             120 \<le> k \<and> k \<le> 902)"
proof -
  have a: "sorted_wrt (<) (map (date_key \<circ> fst) (king_hung_writes y @ fixed_writes y))
       \<and> (\<forall>k\<in>set (map (date_key \<circ> fst) (king_hung_writes y @ fixed_writes y)).
             301 \<le> k \<and> k \<le> 902)"
    unfolding map_append
    by (rule sorted_keys_append [OF king_hung_keys [OF assms] fixed_keys]) simp_all
  show ?thesis
    unfolding map_append [of _ "tet_writes observed y"]
    by (rule sorted_keys_append [OF tet_keys [OF assms] a]) simp_all
qed

lemma rule_writes_sorted:
  assumes "completes y"
  shows "sorted_wrt (<) (map (date_key \<circ> fst) (rule_writes observed y))"
proof -
  have j: "sorted_wrt (<) [101::int] \<and> (\<forall>k\<in>set [101::int]. 101 \<le> k \<and> k \<le> 101)"
    by simp
  have b: "sorted_wrt (<)
             (map (date_key \<circ> fst)
                (shift_writes observed y @ tet_writes observed y @ king_hung_writes y
                 @ fixed_writes y))
       \<and> (\<forall>k\<in>set (map (date_key \<circ> fst)
                (shift_writes observed y @ tet_writes observed y @ king_hung_writes y
                 @ fixed_writes y)). 102 \<le> k \<and> k \<le> 902)"
    unfolding map_append [of _ "shift_writes observed y"]
    by (rule sorted_keys_append [OF shift_keys later_keys [OF assms]]) simp_all
  from sorted_keys_append [OF j b] show ?thesis
    by (simp add: rule_writes_def)
qed

lemma rule_writes_distinct:
  assumes "completes y"
  shows "distinct (map fst (rule_writes observed y))"
  using rule_writes_sorted [OF assms] by (rule keys_distinct)


section \<open>Years outside the supported range\<close>

lemma getitem_outside:
  assumes "y < START_YEAR - 199 \<or> END_YEAR < y"
  shows "getitem g_lunar_month_days (y - START_YEAR) = Inl IndexError"
  using assms by (auto simp add: getitem_def length_table START_YEAR_def END_YEAR_eq)

lemma lookups_raise_outside:
  assumes "y < START_YEAR - 199 \<or> END_YEAR < y"
  shows "get_leap_month y = Inl IndexError"
    and "lunar_month_days y m = Inl IndexError"
    and "lunar_year_days y = Inl IndexError"
  by (simp_all add: get_leap_month_def lunar_month_days_def lunar_year_days_def
      getitem_outside [OF assms])

lemma span_years_raises:
  assumes "\<forall>x\<in>set xs. START_YEAR \<le> x \<and> x \<le> END_YEAR" "lunar_year_days z = Inl e"
  shows "span_years (xs @ z # zs) acc = Inl e"
  using assms by (induction xs arbitrary: acc) (simp_all add: lunar_year_days_in_range)

lemma get_solar_date_raises_outside:
  assumes "y < START_YEAR - 199 \<or> END_YEAR < y"
  shows "get_solar_date y m d = Inl IndexError"
proof (cases "END_YEAR + 1 < y")
  case True
  then have le: "START_YEAR \<le> END_YEAR + 1" "END_YEAR + 1 \<le> y - 1"
    by (simp_all add: START_YEAR_def END_YEAR_eq)
  have u: "[START_YEAR..y - 1]
         = [START_YEAR..END_YEAR + 1 - 1] @ (END_YEAR + 1) # [END_YEAR + 1 + 1..y - 1]"
    by (rule upto_split3 [OF le])
  have r: "lunar_year_days (END_YEAR + 1) = Inl IndexError"
    by (rule lookups_raise_outside) simp
  have i: "\<forall>x\<in>set [START_YEAR..END_YEAR + 1 - 1]. START_YEAR \<le> x \<and> x \<le> END_YEAR"
    by (simp only: set_upto atLeastAtMost_iff) simp
  have "span_years (py_range START_YEAR y) 0 = Inl IndexError"
    unfolding py_range_def u by (rule span_years_raises [OF i r])
  then show ?thesis
    by (simp add: get_solar_date_def)
next
  case False
  then have "\<forall>x\<in>set [START_YEAR..y - 1]. START_YEAR \<le> x \<and> x \<le> END_YEAR"
    by (simp only: set_upto atLeastAtMost_iff) simp
  from span_years_sum [OF this]
  have "\<exists>n. span_years (py_range START_YEAR y) 0 = Inr n"
    by (simp add: py_range_def)
  then show ?thesis
    by (auto simp add: get_solar_date_def solar_date_from_def lookups_raise_outside [OF assms])
qed

lemma window_at_anchor: "tet_window_ok SOLAR_START_DATE"
  by code_simp

lemma add_days_anchor: "add_days SOLAR_START_DATE 0 = Inr SOLAR_START_DATE"
  by code_simp

lemma get_solar_date_below:
  assumes "START_YEAR - 199 \<le> y" "y < START_YEAR"
  shows "get_solar_date y 1 1 = Inr SOLAR_START_DATE"
proof -
  let ?e = "g_lunar_month_days ! nat (199 + (y - START_YEAR))"
  have g: "getitem g_lunar_month_days (y - START_YEAR) = Inr ?e"
    using assms by (simp add: getitem_def length_table START_YEAR_def)
  have "?e \<in> set g_lunar_month_days"
    using assms by (intro nth_mem) (simp add: length_table START_YEAR_def)
  then have "entry_ok ?e"
    using all_entries_ok by (simp add: list_all_iff)
  then have l: "1 \<le> drop_bit 16 ?e AND 15"
    by (auto simp add: entry_ok_def Let_def)
  have "py_range START_YEAR y = []"
    using assms by (simp add: py_range_def)
  then show ?thesis
    using l by (simp add: get_solar_date_def solar_date_from_def get_leap_month_def g
        py_range_def add_days_anchor)
qed

lemma completes_below:
  assumes "START_YEAR - 199 \<le> y" "y < START_YEAR"
  shows "completes y"
  using assms get_solar_date_below [OF assms]
  by (simp add: completes_def new_year_date_def window_at_anchor START_YEAR_def)

lemma populate_raises:
  assumes "1 \<le> y" "y \<le> 9999" "get_solar_date y 1 1 = Inl e"
  shows "populate observed y h
       = (Some e, h @ (if observed
                       then [(\<lparr>d_year = y, d_month = 1, d_day = 1\<rparr>,
                              ''International New Year's Day'')]
                       else [])
                     @ (\<lparr>d_year = y, d_month = 1, d_day = 1\<rparr>, ''International New Year's Day'')
                     # shift_writes observed y)"
proof -
  have "lunar_new_year observed y h' = (Some e, h')" for h'
    by (simp add: lunar_new_year_def assms(3) raise_def)
  then show ?thesis
    unfolding populate_def
    by (simp add: seq_completes [OF new_years_day_run [OF assms(1,2)]] seq_raises)
qed


section \<open>New Year and its shifted date\<close>

lemma lookup_append_notin:
  assumes "k \<notin> fst ` set ys"
  shows "lookup (xs @ ys) k = lookup xs k"
proof -
  have "map_of (rev ys) k = None"
    using assms by (simp add: map_of_eq_None_iff)
  then show ?thesis
    by (simp add: lookup_def map_add_def)
qed

lemma lookup_in_set: "lookup xs k = Some v \<Longrightarrow> (k, v) \<in> set xs"
  using map_of_SomeD [of "rev xs" k v] by (simp add: lookup_def)

lemma tet_labels:
  "map snd (tet_writes True y)
   = [''Vietnamese New Year's Eve'', ''Vietnamese New Year'',
      ''The second day of Tet Holiday'', ''The third day of Tet Holiday'',
      ''The forth day of Tet Holiday'', ''The fifth day of Tet Holiday'']"
  by (simp add: tet_writes_def tet_entry_def getitem_def tet_names_def)

lemma later_names:
  assumes "e \<in> set (tet_writes observed y @ king_hung_writes y @ fixed_writes y)"
  shows "snd e \<in> set tet_names \<union> {''Hung Kings Commemoration Day'',
           ''Liberation Day/Reunification Day'', ''International Labor Day'',
           ''Independence Day''}"
proof (cases "e \<in> set (tet_writes observed y)")
  case True
  then have o: observed by (cases observed) (simp_all add: tet_writes_def)
  from True have "snd e \<in> set (map snd (tet_writes observed y))" by simp
  then show ?thesis
    unfolding o [THEN eqTrueI] tet_labels by (auto simp add: tet_names_def)
next
  case False
  with assms show ?thesis
    by (auto simp add: king_hung_writes_def fixed_writes_def split: if_splits)
qed

lemma new_year_lookups:
  fixes y :: int and observed :: bool and rest :: holidays
  defines "jan1 \<equiv> \<lparr>d_year = y, d_month = 1, d_day = 1\<rparr>"
  defines "h \<equiv> (if observed then [(jan1, ''International New Year's Day'')] else [])
               @ (jan1, ''International New Year's Day'') # shift_writes observed y @ rest"
  assumes r: "\<forall>e\<in>set rest. 120 \<le> date_key (fst e)
                \<and> snd e \<noteq> ''International New Year's Day observed''"
  shows "lookup h jan1 = Some ''International New Year's Day''"
    and "observed \<and> weekday jan1 = SAT \<Longrightarrow>
           lookup h \<lparr>d_year = y, d_month = 1, d_day = 3\<rparr>
             = Some ''International New Year's Day observed''
           \<and> lookup h \<lparr>d_year = y, d_month = 1, d_day = 2\<rparr> = None"
    and "observed \<and> weekday jan1 = SUN \<Longrightarrow>
           lookup h \<lparr>d_year = y, d_month = 1, d_day = 2\<rparr>
             = Some ''International New Year's Day observed''
           \<and> lookup h \<lparr>d_year = y, d_month = 1, d_day = 3\<rparr> = None"
    and "\<not> (observed \<and> (weekday jan1 = SAT \<or> weekday jan1 = SUN)) \<Longrightarrow>
           lookup h \<lparr>d_year = y, d_month = 1, d_day = 2\<rparr> = None
           \<and> lookup h \<lparr>d_year = y, d_month = 1, d_day = 3\<rparr> = None"
    and "lookup h d = Some ''International New Year's Day observed'' \<Longrightarrow>
           observed \<and> (weekday jan1 = SAT \<and> d = \<lparr>d_year = y, d_month = 1, d_day = 3\<rparr>
                        \<or> weekday jan1 = SUN \<and> d = \<lparr>d_year = y, d_month = 1, d_day = 2\<rparr>)"
proof -
  let ?A = "(if observed then [(jan1, ''International New Year's Day'')] else [])
               @ (jan1, ''International New Year's Day'') # shift_writes observed y"
  have h: "h = ?A @ rest" by (simp add: h_def)
  have n: "k \<notin> fst ` set rest" if "date_key k < 120" for k
    using r that by force
  have l: "lookup h k = lookup ?A k" if "date_key k < 120" for k
    unfolding h by (rule lookup_append_notin [OF n [OF that]])
  have l1: "lookup h jan1 = lookup ?A jan1"
    by (rule l) (simp add: jan1_def)
  have l2: "lookup h \<lparr>d_year = y, d_month = 1, d_day = 2\<rparr>
          = lookup ?A \<lparr>d_year = y, d_month = 1, d_day = 2\<rparr>"
    by (rule l) simp
  have l3: "lookup h \<lparr>d_year = y, d_month = 1, d_day = 3\<rparr>
          = lookup ?A \<lparr>d_year = y, d_month = 1, d_day = 3\<rparr>"
    by (rule l) simp
  show "lookup h jan1 = Some ''International New Year's Day''"
    unfolding l1 by (simp add: jan1_def lookup_def shift_writes_def)
  show "lookup h \<lparr>d_year = y, d_month = 1, d_day = 3\<rparr>
          = Some ''International New Year's Day observed''
        \<and> lookup h \<lparr>d_year = y, d_month = 1, d_day = 2\<rparr> = None"
    if "observed \<and> weekday jan1 = SAT"
    unfolding l2 l3 using that by (simp add: jan1_def lookup_def shift_writes_def)
  show "lookup h \<lparr>d_year = y, d_month = 1, d_day = 2\<rparr>
          = Some ''International New Year's Day observed''
        \<and> lookup h \<lparr>d_year = y, d_month = 1, d_day = 3\<rparr> = None"
    if "observed \<and> weekday jan1 = SUN"
    unfolding l2 l3 using that by (simp add: jan1_def lookup_def shift_writes_def SAT_def SUN_def)
  show "lookup h \<lparr>d_year = y, d_month = 1, d_day = 2\<rparr> = None
        \<and> lookup h \<lparr>d_year = y, d_month = 1, d_day = 3\<rparr> = None"
    if "\<not> (observed \<and> (weekday jan1 = SAT \<or> weekday jan1 = SUN))"
    unfolding l2 l3 using that by (auto simp add: jan1_def lookup_def shift_writes_def)
  show "observed \<and> (weekday jan1 = SAT \<and> d = \<lparr>d_year = y, d_month = 1, d_day = 3\<rparr>
                        \<or> weekday jan1 = SUN \<and> d = \<lparr>d_year = y, d_month = 1, d_day = 2\<rparr>)"
    if "lookup h d = Some ''International New Year's Day observed''"
  proof -
    from lookup_in_set [OF that]
    have "(d, ''International New Year's Day observed'') \<in> set ?A"
      unfolding h using r by auto
    then show ?thesis
      by (auto simp add: jan1_def shift_writes_def split: if_splits)
  qed
qed


lemma populate_new_year_part:
  assumes "1 \<le> y" "y \<le> 9999"
  shows "\<exists>rest. snd (populate observed y [])
           = (if observed
              then [(\<lparr>d_year = y, d_month = 1, d_day = 1\<rparr>, ''International New Year's Day'')]
              else [])
             @ (\<lparr>d_year = y, d_month = 1, d_day = 1\<rparr>, ''International New Year's Day'')
             # shift_writes observed y @ rest
         \<and> (\<forall>e\<in>set rest. 120 \<le> date_key (fst e)
                \<and> snd e \<noteq> ''International New Year's Day observed'')"
proof (cases "START_YEAR - 199 \<le> y \<and> y \<le> END_YEAR")
  case True
  then have c: "completes y"
    using completes_below [of y] completes_in_range [of y] by (cases "y < START_YEAR") simp_all
  let ?rest = "tet_writes observed y @ king_hung_writes y @ fixed_writes y"
  have k: "120 \<le> date_key (fst e)" if "e \<in> set ?rest" for e
    using later_keys [OF c, of observed] that by force
  have n: "snd e \<noteq> ''International New Year's Day observed''" if "e \<in> set ?rest" for e
    using later_names [OF that] by (auto simp add: tet_names_def)
  show ?thesis
    using k n by (intro exI [of _ ?rest]) (simp add: populate_completes [OF c] rule_writes_def)
next
  case False
  then have "get_solar_date y 1 1 = Inl IndexError"
    by (intro get_solar_date_raises_outside) auto
  from populate_raises [OF assms this] show ?thesis
    by (intro exI [of _ "[]"]) simp
qed

text \<open>
  C8: for every year of \<^verbatim>\<open>date\<close> (1 to 9999), after \<open>populate\<close> on an empty map
  the first of January has the New Year name, also when the lunar rules raise
  afterwards.  With \<open>observed\<close> set, a first of January on a Saturday adds the third of
  January with the name followed by " observed" and leaves the second unassigned; a
  first of January on a Sunday adds the second and leaves the third unassigned.  On
  another weekday, or without \<open>observed\<close>, neither date is assigned and no date has the
  name with " observed".
\<close>

theorem new_years_day_shift:
  assumes "MINYEAR \<le> y" "y \<le> MAXYEAR"
  shows "lookup (snd (populate observed y [])) \<lparr>d_year = y, d_month = 1, d_day = 1\<rparr>
           = Some ''International New Year's Day''
       \<and> (observed \<and> weekday \<lparr>d_year = y, d_month = 1, d_day = 1\<rparr> = SAT \<longrightarrow>
            lookup (snd (populate observed y [])) \<lparr>d_year = y, d_month = 1, d_day = 3\<rparr>
              = Some ''International New Year's Day observed''
            \<and> lookup (snd (populate observed y [])) \<lparr>d_year = y, d_month = 1, d_day = 2\<rparr>
              = None)
       \<and> (observed \<and> weekday \<lparr>d_year = y, d_month = 1, d_day = 1\<rparr> = SUN \<longrightarrow>
            lookup (snd (populate observed y [])) \<lparr>d_year = y, d_month = 1, d_day = 2\<rparr>
              = Some ''International New Year's Day observed''
            \<and> lookup (snd (populate observed y [])) \<lparr>d_year = y, d_month = 1, d_day = 3\<rparr>
              = None)
       \<and> (\<not> (observed \<and> (weekday \<lparr>d_year = y, d_month = 1, d_day = 1\<rparr> = SAT
                          \<or> weekday \<lparr>d_year = y, d_month = 1, d_day = 1\<rparr> = SUN)) \<longrightarrow>
            lookup (snd (populate observed y [])) \<lparr>d_year = y, d_month = 1, d_day = 2\<rparr> = None
            \<and> lookup (snd (populate observed y [])) \<lparr>d_year = y, d_month = 1, d_day = 3\<rparr>
              = None
            \<and> (\<forall>d. lookup (snd (populate observed y [])) d
                    \<noteq> Some ''International New Year's Day observed''))"
proof -
  have y: "1 \<le> y" "y \<le> 9999"
    using assms by (simp_all add: MINYEAR_def MAXYEAR_def)
  from populate_new_year_part [OF y, of observed] obtain rest
    where h: "snd (populate observed y [])
           = (if observed
              then [(\<lparr>d_year = y, d_month = 1, d_day = 1\<rparr>, ''International New Year's Day'')]
              else [])
             @ (\<lparr>d_year = y, d_month = 1, d_day = 1\<rparr>, ''International New Year's Day'')
             # shift_writes observed y @ rest"
      and r: "\<forall>e\<in>set rest. 120 \<le> date_key (fst e)
                \<and> snd e \<noteq> ''International New Year's Day observed''"
    by blast
  note l = new_year_lookups [OF r, of observed y, folded h]
  show ?thesis
    using l(1) l(2) l(3) l(4) l(5) by blast
qed

theorem new_years_day_shift_witness:
  "MINYEAR \<le> 2023 \<and> 2023 \<le> MAXYEAR
   \<and> weekday \<lparr>d_year = 2023, d_month = 1, d_day = 1\<rparr> = SUN
   \<and> lookup (snd (populate True 2023 [])) \<lparr>d_year = 2023, d_month = 1, d_day = 1\<rparr>
       = Some ''International New Year's Day''
   \<and> lookup (snd (populate True 2023 [])) \<lparr>d_year = 2023, d_month = 1, d_day = 2\<rparr>
       = Some ''International New Year's Day observed''"
proof -
  have a: "MINYEAR \<le> 2023" "2023 \<le> MAXYEAR"
    by (simp_all add: MINYEAR_def MAXYEAR_def)
  have w: "weekday \<lparr>d_year = 2023, d_month = 1, d_day = 1\<rparr> = SUN"
    by code_simp
  show ?thesis
    using a w new_years_day_shift [OF a, of True] by simp
qed


section \<open>The New Year dates of the table\<close>

lemma lookup_populate:
  assumes "completes y"
  shows "(lookup (snd (populate observed y [])) k = Some v)
       = ((k, v) \<in> set (rule_writes observed y))"
proof -
  have "lookup (snd (populate observed y [])) = lookup (rule_writes observed y)"
    by (cases observed) (simp_all add: populate_completes [OF assms] rule_writes_def lookup_repeat)
  then show ?thesis
    by (simp add: lookup_iff [OF rule_writes_distinct [OF assms]])
qed

text \<open>
  C6, as stated: the first lunar day of every year is within 21 to 51 days of the
  first of February.  It fails for 1901, whose new year is 1901-02-19, 18 days after
  the first of February.
\<close>

theorem new_year_window_counterexample:
  "get_solar_date 1901 1 1 = Inr \<lparr>d_year = 1901, d_month = 2, d_day = 19\<rparr>
   \<and> \<not> within_days_of \<lparr>d_year = 1901, d_month = 2, d_day = 19\<rparr>
          \<lparr>d_year = 1901, d_month = 2, d_day = 1\<rparr> 21 51"
  by code_simp

text \<open>
  C6, amended: for every lunar year of \<open>START_YEAR .. END_YEAR\<close>, the first lunar day
  is converted to a date of the Gregorian year with the same number, at most 11 days
  before and at most 19 days after the first of February, which is 20 to 50 days
  after the first of January (the 21st to the 51st day of the year); and for two
  years of the range the later year has the later date, in the order of dates and in
  ordinals.
\<close>

theorem new_year_window:
  assumes "START_YEAR \<le> y1" "y1 \<le> y2" "y2 \<le> END_YEAR"
  shows "\<exists>d1 d2. get_solar_date y1 1 1 = Inr d1 \<and> get_solar_date y2 1 1 = Inr d2
           \<and> d_year d1 = y1
           \<and> - 11 \<le> toordinal d1 - toordinal \<lparr>d_year = y1, d_month = 2, d_day = 1\<rparr>
           \<and> toordinal d1 - toordinal \<lparr>d_year = y1, d_month = 2, d_day = 1\<rparr> \<le> 19
           \<and> 20 \<le> toordinal d1 - toordinal \<lparr>d_year = y1, d_month = 1, d_day = 1\<rparr>
           \<and> toordinal d1 - toordinal \<lparr>d_year = y1, d_month = 1, d_day = 1\<rparr> \<le> 50
           \<and> (y1 < y2 \<longrightarrow> date_less d1 d2 \<and> toordinal d1 < toordinal d2)"
proof -
  let ?S = "\<lambda>y. sum_list (map year_length [START_YEAR..y - 1])"
  have r1: "START_YEAR \<le> y1" "y1 \<le> END_YEAR" and r2: "START_YEAR \<le> y2" "y2 \<le> END_YEAR"
    using assms by simp_all
  note f1 = new_year_facts [OF r1] and f2 = new_year_facts [OF r2]
  have o1: "d_year (new_year_date y1) = y1"
    "toordinal (new_year_date y1) = toordinal SOLAR_START_DATE + ?S y1"
    "- 11 \<le> toordinal (new_year_date y1) - ymd2ord y1 2 1"
    "toordinal (new_year_date y1) - ymd2ord y1 2 1 \<le> 19"
    using f1(2) by (simp_all add: new_year_ok_def)
  have o2: "d_year (new_year_date y2) = y2"
    "toordinal (new_year_date y2) = toordinal SOLAR_START_DATE + ?S y2"
    using f2(2) by (simp_all add: new_year_ok_def)
  have feb: "toordinal \<lparr>d_year = y1, d_month = 2, d_day = 1\<rparr> = ymd2ord y1 2 1"
    "toordinal \<lparr>d_year = y1, d_month = 1, d_day = 1\<rparr> = ymd2ord y1 2 1 - 31"
    by (simp_all add: toordinal_def ymd2ord_def days_before_month_def DAYS_BEFORE_MONTH_def)
  have inc: "?S y1 < ?S y2" if "y1 < y2"
  proof -
    have "[START_YEAR..y2 - 1] = [START_YEAR..y1 - 1] @ [y1..y2 - 1]"
      using that assms by (intro upto_split1) simp_all
    then have s: "?S y2 = ?S y1 + sum_list (map year_length [y1..y2 - 1])"
      by simp
    have "\<forall>y\<in>set [y1..y2 - 1]. 353 \<le> year_length y \<and> year_length y \<le> 385"
      using assms year_length_bounds by simp
    from sum_list_bounds [OF this]
    have "353 * int (length [y1..y2 - 1]) \<le> sum_list (map year_length [y1..y2 - 1])"
      by simp
    moreover have "0 < int (length [y1..y2 - 1])"
      using that by simp
    ultimately show ?thesis
      using s by simp
  qed
  have "y1 < y2 \<longrightarrow> date_less (new_year_date y1) (new_year_date y2)
          \<and> toordinal (new_year_date y1) < toordinal (new_year_date y2)"
    using inc o1 o2 by (simp add: date_less_def)
  then show ?thesis
    using f1(1) f2(1) o1 unfolding feb by (intro exI [of _ "new_year_date y1"] exI [of _ "new_year_date y2"]) simp
qed

theorem new_year_window_witness:
  "START_YEAR \<le> 2022 \<and> (2022::int) \<le> 2023 \<and> 2023 \<le> END_YEAR
   \<and> (\<exists>d1 d2. get_solar_date 2022 1 1 = Inr d1 \<and> get_solar_date 2023 1 1 = Inr d2
          \<and> d_year d1 = 2022 \<and> date_less d1 d2)"
proof -
  have a: "START_YEAR \<le> 2022" "(2022::int) \<le> 2023" "2023 \<le> END_YEAR"
    by (simp_all add: START_YEAR_def END_YEAR_eq)
  show ?thesis
    using a new_year_window [OF a] by auto
qed

section \<open>No two rules assign the same date\<close>

text \<open>
  C9, as stated: no key is assigned twice during one call.  It fails for 1901 with
  \<open>observed\<close> set: the first of January is assigned twice.
\<close>

theorem populate_distinct_counterexample:
  "\<not> distinct (map fst (snd (populate True 1901 [])))"
  by code_simp

text \<open>
  C9, amended: for every year of \<open>START_YEAR .. END_YEAR\<close> and either value of
  \<open>observed\<close>, \<open>populate\<close> completes and only appends assignments to those made
  before; once an assignment that repeats the one just before it is counted once, no
  date is assigned twice, so the dates of the rules are pairwise distinct; without
  \<open>observed\<close> no assignment is repeated at all.
\<close>

theorem populate_distinct_dates:
  assumes "START_YEAR \<le> y" "y \<le> END_YEAR"
  shows "\<exists>new. populate observed y h = (None, h @ new)
           \<and> distinct (map fst (remdups_adj new))
           \<and> (\<not> observed \<longrightarrow> distinct (map fst new))"
proof -
  have c: "completes y" by (rule completes_in_range [OF assms])
  let ?jan1 = "(\<lparr>d_year = y, d_month = 1, d_day = 1\<rparr>, ''International New Year's Day'')"
  let ?new = "(if observed then [?jan1] else []) @ rule_writes observed y"
  have d: "distinct (map fst (rule_writes observed y))"
    by (rule rule_writes_distinct [OF c])
  then have "distinct (rule_writes observed y)"
    by (simp add: distinct_map)
  then have "remdups_adj (rule_writes observed y) = rule_writes observed y"
    by (rule remdups_adj_distinct)
  moreover have "remdups_adj (?jan1 # rule_writes observed y) = remdups_adj (rule_writes observed y)"
    by (simp add: rule_writes_def)
  ultimately have r: "remdups_adj ?new = rule_writes observed y"
    by (cases observed) simp_all
  have 1: "populate observed y h = (None, h @ ?new)"
    using populate_completes [OF c, of observed h] by simp
  have 2: "distinct (map fst (remdups_adj ?new))"
    unfolding r by (rule d)
  have 3: "\<not> observed \<longrightarrow> distinct (map fst ?new)"
    using d by (cases observed) simp_all
  show ?thesis
    using 1 2 3 by blast
qed

theorem populate_distinct_dates_witness:
  "START_YEAR \<le> 1901 \<and> 1901 \<le> END_YEAR
   \<and> (\<exists>new. populate True 1901 [] = (None, [] @ new) \<and> distinct (map fst (remdups_adj new)))"
proof -
  have a: "START_YEAR \<le> 1901" "1901 \<le> END_YEAR"
    by (simp_all add: START_YEAR_def END_YEAR_eq)
  show ?thesis
    using a populate_distinct_dates [OF a, of True "[]"] by blast
qed


section \<open>The Tet window\<close>

lemma tet_dates:
  assumes "completes y"
  shows "\<exists>eve d1 d2 d3 d4.
           add_days (new_year_date y) (- 1) = Inr eve
           \<and> add_days (new_year_date y) 0 = Inr (new_year_date y)
           \<and> add_days (new_year_date y) 1 = Inr d1
           \<and> add_days (new_year_date y) 2 = Inr d2
           \<and> add_days (new_year_date y) 3 = Inr d3
           \<and> add_days (new_year_date y) 4 = Inr d4
           \<and> toordinal eve = toordinal (new_year_date y) - 1
           \<and> toordinal d1 = toordinal (new_year_date y) + 1
           \<and> toordinal d2 = toordinal (new_year_date y) + 2
           \<and> toordinal d3 = toordinal (new_year_date y) + 3
           \<and> toordinal d4 = toordinal (new_year_date y) + 4
           \<and> tet_writes True y
               = [(eve, ''Vietnamese New Year's Eve''),
                  (new_year_date y, ''Vietnamese New Year''),
                  (d1, ''The second day of Tet Holiday''),
                  (d2, ''The third day of Tet Holiday''),
                  (d3, ''The forth day of Tet Holiday''),
                  (d4, ''The fifth day of Tet Holiday'')]"
proof -
  have "tet_window_ok (new_year_date y)"
    using assms by (simp add: completes_def)
  then show ?thesis
    by (auto simp add: tet_window_ok_def tet_day_ok_def tet_writes_def tet_entry_def
        getitem_def tet_names_def split: sum.splits)
qed

text \<open>
  C7: for every year of \<open>START_YEAR .. END_YEAR\<close>, \<open>populate\<close> on an empty map
  completes.  Without \<open>observed\<close> no date has one of the six Tet names.  With
  \<open>observed\<close> the day before the converted first lunar day has the name of the eve,
  that day the name of the new year, and the four days after it the names of the
  second to the fifth day; the six dates are consecutive days, they are distinct and
  they are the only dates with a Tet name.
\<close>

theorem tet_window_gating:
  assumes "START_YEAR \<le> y" "y \<le> END_YEAR"
  shows "fst (populate False y []) = None
       \<and> (\<forall>d. lookup (snd (populate False y [])) d \<notin> Some ` set tet_names)
       \<and> (\<exists>nyd eve d1 d2 d3 d4.
            get_solar_date y 1 1 = Inr nyd
            \<and> add_days nyd (- 1) = Inr eve \<and> add_days nyd 0 = Inr nyd
            \<and> add_days nyd 1 = Inr d1 \<and> add_days nyd 2 = Inr d2
            \<and> add_days nyd 3 = Inr d3 \<and> add_days nyd 4 = Inr d4
            \<and> toordinal eve = toordinal nyd - 1 \<and> toordinal d1 = toordinal nyd + 1
            \<and> toordinal d2 = toordinal nyd + 2 \<and> toordinal d3 = toordinal nyd + 3
            \<and> toordinal d4 = toordinal nyd + 4
            \<and> fst (populate True y []) = None
            \<and> lookup (snd (populate True y [])) eve = Some ''Vietnamese New Year's Eve''
            \<and> lookup (snd (populate True y [])) nyd = Some ''Vietnamese New Year''
            \<and> lookup (snd (populate True y [])) d1 = Some ''The second day of Tet Holiday''
            \<and> lookup (snd (populate True y [])) d2 = Some ''The third day of Tet Holiday''
            \<and> lookup (snd (populate True y [])) d3 = Some ''The forth day of Tet Holiday''
            \<and> lookup (snd (populate True y [])) d4 = Some ''The fifth day of Tet Holiday''
            \<and> distinct [eve, nyd, d1, d2, d3, d4]
            \<and> {d. lookup (snd (populate True y [])) d \<in> Some ` set tet_names}
                = {eve, nyd, d1, d2, d3, d4})"
proof -
  have c: "completes y" by (rule completes_in_range [OF assms])
  have n: "get_solar_date y 1 1 = Inr (new_year_date y)"
    using c by (simp add: completes_def)
  have off: "lookup (snd (populate False y [])) d \<notin> Some ` set tet_names" for d
  proof
    assume "lookup (snd (populate False y [])) d \<in> Some ` set tet_names"
    then obtain v where v: "v \<in> set tet_names" "lookup (snd (populate False y [])) d = Some v"
      by auto
    from v(2) have "(d, v) \<in> set (rule_writes False y)"
      by (simp add: lookup_populate [OF c])
    with v(1) show False
      by (auto simp add: rule_writes_def shift_writes_def tet_writes_def king_hung_writes_def
          fixed_writes_def tet_names_def split: if_splits)
  qed
  from tet_dates [OF c] obtain eve d1 d2 d3 d4
    where a: "add_days (new_year_date y) (- 1) = Inr eve"
      "add_days (new_year_date y) 0 = Inr (new_year_date y)"
      "add_days (new_year_date y) 1 = Inr d1" "add_days (new_year_date y) 2 = Inr d2"
      "add_days (new_year_date y) 3 = Inr d3" "add_days (new_year_date y) 4 = Inr d4"
      and o: "toordinal eve = toordinal (new_year_date y) - 1"
      "toordinal d1 = toordinal (new_year_date y) + 1"
      "toordinal d2 = toordinal (new_year_date y) + 2"
      "toordinal d3 = toordinal (new_year_date y) + 3"
      "toordinal d4 = toordinal (new_year_date y) + 4"
      and t: "tet_writes True y
               = [(eve, ''Vietnamese New Year's Eve''),
                  (new_year_date y, ''Vietnamese New Year''),
                  (d1, ''The second day of Tet Holiday''),
                  (d2, ''The third day of Tet Holiday''),
                  (d3, ''The forth day of Tet Holiday''),
                  (d4, ''The fifth day of Tet Holiday'')]"
    by blast
  have m: "set (tet_writes True y) \<subseteq> set (rule_writes True y)"
    by (auto simp add: rule_writes_def)
  have l: "lookup (snd (populate True y [])) eve = Some ''Vietnamese New Year's Eve''"
    "lookup (snd (populate True y [])) (new_year_date y) = Some ''Vietnamese New Year''"
    "lookup (snd (populate True y [])) d1 = Some ''The second day of Tet Holiday''"
    "lookup (snd (populate True y [])) d2 = Some ''The third day of Tet Holiday''"
    "lookup (snd (populate True y [])) d3 = Some ''The forth day of Tet Holiday''"
    "lookup (snd (populate True y [])) d4 = Some ''The fifth day of Tet Holiday''"
    using m unfolding t by (simp_all add: lookup_populate [OF c])
  have "distinct (map fst (tet_writes True y))"
    using rule_writes_distinct [OF c, of True] by (simp add: rule_writes_def)
  then have d: "distinct [eve, new_year_date y, d1, d2, d3, d4]"
    unfolding t by simp
  have s: "{d. lookup (snd (populate True y [])) d \<in> Some ` set tet_names}
         = {eve, new_year_date y, d1, d2, d3, d4}"
  proof (intro set_eqI iffI)
    fix x
    assume "x \<in> {d. lookup (snd (populate True y [])) d \<in> Some ` set tet_names}"
    then obtain v where v: "v \<in> set tet_names" "lookup (snd (populate True y [])) x = Some v"
      by auto
    from v(2) have "(x, v) \<in> set (rule_writes True y)"
      by (simp add: lookup_populate [OF c])
    with v(1) have "(x, v) \<in> set (tet_writes True y)"
      by (auto simp add: rule_writes_def shift_writes_def king_hung_writes_def
          fixed_writes_def tet_names_def split: if_splits)
    then show "x \<in> {eve, new_year_date y, d1, d2, d3, d4}"
      unfolding t by auto
  next
    fix x
    assume "x \<in> {eve, new_year_date y, d1, d2, d3, d4}"
    then show "x \<in> {d. lookup (snd (populate True y [])) d \<in> Some ` set tet_names}"
      using l by (auto simp add: tet_names_def)
  qed
  have p: "fst (populate False y []) = None" "fst (populate True y []) = None"
    by (simp_all add: populate_completes [OF c])
  show ?thesis
    using p off n a o l d s by blast
qed

theorem tet_window_gating_witness:
  "START_YEAR \<le> 1901 \<and> 1901 \<le> END_YEAR
   \<and> get_solar_date 1901 1 1 = Inr SOLAR_START_DATE
   \<and> lookup (snd (populate True 1901 [])) SOLAR_START_DATE = Some ''Vietnamese New Year''
   \<and> lookup (snd (populate False 1901 [])) SOLAR_START_DATE \<noteq> Some ''Vietnamese New Year''"
proof -
  have a: "START_YEAR \<le> 1901" "1901 \<le> END_YEAR"
    by (simp_all add: START_YEAR_def END_YEAR_eq)
  have n: "get_solar_date 1901 1 1 = Inr SOLAR_START_DATE"
    by code_simp
  note g = tet_window_gating [OF a]
  from g obtain nyd where "get_solar_date 1901 1 1 = Inr nyd"
    and l: "lookup (snd (populate True 1901 [])) nyd = Some ''Vietnamese New Year''"
    by blast
  with n have e: "nyd = SOLAR_START_DATE" by simp
  have m: "''Vietnamese New Year'' \<in> set tet_names"
    by (simp add: tet_names_def)
  from g have "lookup (snd (populate False 1901 [])) SOLAR_START_DATE \<notin> Some ` set tet_names"
    by blast
  with m have "lookup (snd (populate False 1901 [])) SOLAR_START_DATE \<noteq> Some ''Vietnamese New Year''"
    by blast
  then show ?thesis
    using a n l e by simp
qed

end
